theory Spec2Isabelle
  imports Main
begin

section \<open>Cost tracking and the background job queue\<close>

text \<open>
  The development embeds the PL/pgSQL functions of the migration that creates the cost
  tracking and the background job queue: \<open>increment_usage_metric\<close>,
  \<open>enqueue_job\<close>, \<open>get_next_job\<close>, \<open>complete_job\<close>, the trigger function
  \<open>update_job_queue_timestamp\<close> and \<open>cleanup_old_jobs\<close>, over the two tables
  \<open>daily_usage_metrics\<close> and \<open>job_queue\<close>.

  Conventions of the embedding.
  \<^item> A table is the list of its rows. Every function takes the table it works on and
    returns the new table; a function that PostgreSQL aborts with an error returns
    \<open>Inl\<close> of the error, and the table is then the one before the call.
  \<^item> \<open>now()\<close> and \<open>gen_random_uuid()\<close> are read from the environment: each function
    takes the current timestamp \<open>now\<close>, and an inserting function the fresh \<open>uuid\<close>.
  \<^item> A \<open>timestamptz\<close> is the number of microseconds since 2000-01-01 00:00 UTC, a
    \<open>date\<close> a number of days, \<open>integer\<close> a mathematical integer whose sums are checked
    against the 32-bit range as PostgreSQL checks them. A column that may be \<open>NULL\<close> has an
    option type. The session time zone is UTC, so that a day has 86400 seconds.
  \<^item> The arguments of a call are not \<open>NULL\<close>, but for \<open>p_error_message\<close>, whose default
    is \<open>NULL\<close>.
  \<^item> \<open>FOR UPDATE SKIP LOCKED\<close> is the set \<open>locked\<close> of the rows that other transactions
    hold locked when the statement runs; it is empty when the calls run one after another.
\<close>

subsection \<open>Values and errors\<close>

type_synonym uuid = nat
type_synonym timestamptz = int
type_synonym date = int
type_synonym jsonb = string

datatype pg_error =
    Integer_out_of_range
  | Float_overflow
  | Float_underflow
  | Interval_out_of_range
  | Timestamp_out_of_range
  | Unique_violation

text \<open>\<open>integer + integer\<close>: the sum, or the error \<open>integer out of range\<close>.\<close>

definition int4pl :: "int \<Rightarrow> int \<Rightarrow> pg_error + int" where
  "int4pl a b =
     (let r = a + b
      in if r < - 2147483648 \<or> 2147483647 < r then Inl Integer_out_of_range else Inr r)"

text \<open>The first and the end of the range of a \<open>timestamptz\<close>, in microseconds.\<close>

definition MIN_TIMESTAMP :: int where
  "MIN_TIMESTAMP = - 211813488000000000"

definition END_TIMESTAMP :: int where
  "END_TIMESTAMP = 9223371331200000000"

text \<open>\<open>timestamptz + interval\<close> for an interval of \<open>d\<close> microseconds.\<close>

definition timestamptz_pl :: "timestamptz \<Rightarrow> int \<Rightarrow> pg_error + timestamptz" where
  "timestamptz_pl t d =
     (let r = t + d
      in if r < MIN_TIMESTAMP \<or> END_TIMESTAMP \<le> r then Inl Timestamp_out_of_range else Inr r)"

text \<open>Rounding \<open>a / b\<close> (for \<open>0 < b\<close>) to the nearest integer, a tie to the even one.\<close>

definition rint_div :: "int \<Rightarrow> int \<Rightarrow> int" where
  "rint_div a b =
     (let q = a div b; r = a mod b
      in if b < 2 * r \<or> (2 * r = b \<and> odd q) then q + 1 else q)"

text \<open>
  \<open>power(2, n) * interval '1 minute'\<close>, in microseconds. \<open>power\<close> is the one of
  \<open>double precision\<close>: it fails beyond the exponents of that type, and the product is
  rounded to a whole number of microseconds that has to fit 64 bits.
\<close>

definition backoff :: "int \<Rightarrow> pg_error + int" where
  "backoff n =
     (if 1023 < n then Inl Float_overflow
      else if n < - 1074 then Inl Float_underflow
      else
        let usecs = (if 0 \<le> n then 60000000 * 2 ^ nat n
                     else rint_div 60000000 (2 ^ nat (- n)))
        in if 9223372036854775808 \<le> usecs then Inl Interval_out_of_range else Inr usecs)"

text \<open>\<open>now() - (p_days_old || ' days')::interval\<close>.\<close>

definition days_before :: "timestamptz \<Rightarrow> int \<Rightarrow> pg_error + timestamptz" where
  "days_before now p_days_old = timestamptz_pl now (- (p_days_old * 86400000000))"

text \<open>
  \<open>UPDATE ... SET ... WHERE P\<close>: every row that satisfies \<open>P\<close> is replaced by \<open>f\<close> of it,
  in place; an error on one row aborts the statement.
\<close>

fun update_where :: "('r \<Rightarrow> bool) \<Rightarrow> ('r \<Rightarrow> pg_error + 'r) \<Rightarrow> 'r list \<Rightarrow> pg_error + 'r list" where
  "update_where P f [] = Inr []"
| "update_where P f (r # rs) =
     (case (if P r then f r else Inr r) of
        Inl e \<Rightarrow> Inl e
      | Inr r' \<Rightarrow>
          (case update_where P f rs of
             Inl e \<Rightarrow> Inl e
           | Inr rs' \<Rightarrow> Inr (r' # rs')))"

subsection \<open>Table \<open>daily_usage_metrics\<close>\<close>

record usage_row =
  metric_id :: uuid
  date :: date
  provider :: string
  service :: string
  usage_count :: int
  tokens_used :: "int option"
  estimated_cost_cents :: int
  metadata :: jsonb
  metric_created_at :: timestamptz
  metric_updated_at :: timestamptz

text \<open>The row the \<open>INSERT\<close> of \<open>increment_usage_metric\<close> proposes.\<close>

definition proposed_row ::
  "timestamptz \<Rightarrow> uuid \<Rightarrow> date \<Rightarrow> string \<Rightarrow> string \<Rightarrow> int \<Rightarrow> int \<Rightarrow> int \<Rightarrow> usage_row" where
  "proposed_row now new_id p_date p_provider p_service p_usage_count p_tokens_used p_cost_cents =
     \<lparr>metric_id = new_id, date = p_date, provider = p_provider, service = p_service,
      usage_count = p_usage_count, tokens_used = Some p_tokens_used,
      estimated_cost_cents = p_cost_cents, metadata = ''{}'',
      metric_created_at = now, metric_updated_at = now\<rparr>"

text \<open>The \<open>DO UPDATE SET\<close> of the conflicting row \<open>r\<close>.\<close>

definition accumulate :: "timestamptz \<Rightarrow> int \<Rightarrow> int \<Rightarrow> int \<Rightarrow> usage_row \<Rightarrow> pg_error + usage_row" where
  "accumulate now p_usage_count p_tokens_used p_cost_cents r =
     (case int4pl (usage_count r) p_usage_count of
        Inl e \<Rightarrow> Inl e
      | Inr u \<Rightarrow>
          (case (case tokens_used r of
                   None \<Rightarrow> Inr None
                 | Some t0 \<Rightarrow>
                     (case int4pl t0 p_tokens_used of
                        Inl e \<Rightarrow> Inl e
                      | Inr t1 \<Rightarrow> Inr (Some t1))) of
             Inl e \<Rightarrow> Inl e
           | Inr t \<Rightarrow>
               (case int4pl (estimated_cost_cents r) p_cost_cents of
                  Inl e \<Rightarrow> Inl e
                | Inr c \<Rightarrow>
                    Inr (r\<lparr>usage_count := u, tokens_used := t, estimated_cost_cents := c,
                           metric_updated_at := now\<rparr>))))"

definition same_key :: "date \<Rightarrow> string \<Rightarrow> string \<Rightarrow> usage_row \<Rightarrow> bool" where
  "same_key p_date p_provider p_service r \<longleftrightarrow>
     date r = p_date \<and> provider r = p_provider \<and> service r = p_service"

definition increment_usage_metric ::
  "timestamptz \<Rightarrow> uuid \<Rightarrow> date \<Rightarrow> string \<Rightarrow> string \<Rightarrow> int \<Rightarrow> int \<Rightarrow> int \<Rightarrow>
     usage_row list \<Rightarrow> pg_error + usage_row list" where
  "increment_usage_metric now new_id p_date p_provider p_service
       p_usage_count p_tokens_used p_cost_cents tbl =
     (if list_ex (same_key p_date p_provider p_service) tbl
      then update_where (same_key p_date p_provider p_service)
             (accumulate now p_usage_count p_tokens_used p_cost_cents) tbl
      else if list_ex (\<lambda>r. metric_id r = new_id) tbl then Inl Unique_violation
      else Inr (tbl @ [proposed_row now new_id p_date p_provider p_service
                         p_usage_count p_tokens_used p_cost_cents]))"

subsection \<open>Table \<open>job_queue\<close>\<close>

datatype job_status = Pending | Processing | Completed | Failed

record job =
  job_id :: uuid
  job_type :: string
  payload :: jsonb
  status :: job_status
  priority :: int
  scheduled_at :: timestamptz
  started_at :: "timestamptz option"
  completed_at :: "timestamptz option"
  error_message :: "string option"
  retry_count :: int
  max_retries :: int
  created_at :: timestamptz
  updated_at :: timestamptz

text \<open>The trigger \<open>job_queue_updated_at\<close>, run on the new row before every update.\<close>

definition update_job_queue_timestamp :: "timestamptz \<Rightarrow> job \<Rightarrow> job" where
  "update_job_queue_timestamp now new = new\<lparr>updated_at := now\<rparr>"

definition enqueue_job ::
  "timestamptz \<Rightarrow> uuid \<Rightarrow> string \<Rightarrow> jsonb \<Rightarrow> int \<Rightarrow> timestamptz \<Rightarrow> job list \<Rightarrow>
     pg_error + (uuid \<times> job list)" where
  "enqueue_job now new_id p_job_type p_payload p_priority p_scheduled_at tbl =
     (if list_ex (\<lambda>j. job_id j = new_id) tbl then Inl Unique_violation
      else Inr (new_id,
        tbl @ [\<lparr>job_id = new_id, job_type = p_job_type, payload = p_payload,
                 status = Pending, priority = p_priority, scheduled_at = p_scheduled_at,
                 started_at = None, completed_at = None, error_message = None,
                 retry_count = 0, max_retries = 3, created_at = now, updated_at = now\<rparr>]))"

text \<open>The \<open>WHERE\<close> of the inner \<open>SELECT\<close> of \<open>get_next_job\<close>, with the rows it skips.\<close>

definition claimable :: "timestamptz \<Rightarrow> uuid set \<Rightarrow> job \<Rightarrow> bool" where
  "claimable now locked j \<longleftrightarrow>
     status j = Pending \<and> scheduled_at j \<le> now \<and> job_id j \<notin> locked"

text \<open>\<open>ORDER BY priority DESC, scheduled_at ASC\<close>: \<open>a\<close> sorts strictly before \<open>b\<close>.\<close>

definition sorts_before :: "job \<Rightarrow> job \<Rightarrow> bool" where
  "sorts_before a b \<longleftrightarrow>
     priority b < priority a \<or> (priority a = priority b \<and> scheduled_at a < scheduled_at b)"

text \<open>
  \<open>LIMIT 1\<close> of the ordered rows. PostgreSQL leaves the order of rows that agree on both
  keys open; here the first of them in the table is taken.
\<close>

fun limit_1 :: "job list \<Rightarrow> job option" where
  "limit_1 [] = None"
| "limit_1 (j # js) =
     (case limit_1 js of
        None \<Rightarrow> Some j
      | Some b \<Rightarrow> if sorts_before b j then Some b else Some j)"

definition claim_row :: "timestamptz \<Rightarrow> job \<Rightarrow> job" where
  "claim_row now j =
     update_job_queue_timestamp now
       (j\<lparr>status := Processing, started_at := Some now, updated_at := now\<rparr>)"

text \<open>\<open>get_next_job\<close> returns the updated rows (\<open>RETURNING *\<close>) and the new table.\<close>

definition get_next_job :: "timestamptz \<Rightarrow> uuid set \<Rightarrow> job list \<Rightarrow> job list \<times> job list" where
  "get_next_job now locked tbl =
     (case limit_1 (filter (claimable now locked) tbl) of
        None \<Rightarrow> ([], tbl)
      | Some s \<Rightarrow>
          (map (claim_row now) (filter (\<lambda>j. job_id j = job_id s) tbl),
           map (\<lambda>j. if job_id j = job_id s then claim_row now j else j) tbl))"

text \<open>The two \<open>UPDATE\<close>s of \<open>complete_job\<close>, on one row.\<close>

definition succeed_row :: "timestamptz \<Rightarrow> job \<Rightarrow> job" where
  "succeed_row now j =
     update_job_queue_timestamp now
       (j\<lparr>status := Completed, completed_at := Some now, updated_at := now\<rparr>)"

definition fail_row :: "timestamptz \<Rightarrow> string option \<Rightarrow> job \<Rightarrow> pg_error + job" where
  "fail_row now p_error_message j =
     (case int4pl (retry_count j) 1 of
        Inl e \<Rightarrow> Inl e
      | Inr n \<Rightarrow>
          (case (if retry_count j < max_retries j
                 then (case backoff (retry_count j) of
                         Inl e \<Rightarrow> Inl e
                       | Inr d \<Rightarrow> timestamptz_pl now d)
                 else Inr (scheduled_at j)) of
             Inl e \<Rightarrow> Inl e
           | Inr s \<Rightarrow>
               Inr (update_job_queue_timestamp now
                 (j\<lparr>status := (if retry_count j \<ge> max_retries j then Failed else Pending),
                    retry_count := n,
                    error_message := p_error_message,
                    scheduled_at := s,
                    started_at := None,
                    updated_at := now\<rparr>))))"

definition complete_job ::
  "timestamptz \<Rightarrow> uuid \<Rightarrow> bool \<Rightarrow> string option \<Rightarrow> job list \<Rightarrow> pg_error + job list" where
  "complete_job now p_job_id p_success p_error_message tbl =
     (if p_success
      then Inr (map (\<lambda>j. if job_id j = p_job_id then succeed_row now j else j) tbl)
      else update_where (\<lambda>j. job_id j = p_job_id) (fail_row now p_error_message) tbl)"

text \<open>The \<open>WHERE\<close> of the \<open>DELETE\<close> of \<open>cleanup_old_jobs\<close>; a \<open>NULL\<close> \<open>completed_at\<close>
  compares to \<open>NULL\<close>, and the row stays.\<close>

definition expired :: "timestamptz \<Rightarrow> job \<Rightarrow> bool" where
  "expired cutoff j \<longleftrightarrow>
     (status j = Completed \<or> status j = Failed) \<and>
     (case completed_at j of None \<Rightarrow> False | Some c \<Rightarrow> c < cutoff)"

text \<open>\<open>cleanup_old_jobs\<close> returns the number of deleted rows and the new table.\<close>

definition cleanup_old_jobs :: "timestamptz \<Rightarrow> int \<Rightarrow> job list \<Rightarrow> pg_error + (int \<times> job list)" where
  "cleanup_old_jobs now p_days_old tbl =
     (case days_before now p_days_old of
        Inl e \<Rightarrow> Inl e
      | Inr cutoff \<Rightarrow>
          (let v_deleted_count = int (length (filter (expired cutoff) tbl))
           in if 2147483647 < v_deleted_count then Inl Integer_out_of_range
              else Inr (v_deleted_count, filter (\<lambda>j. \<not> expired cutoff j) tbl)))"

subsection \<open>Sequences of calls\<close>

text \<open>
  A call of one of the four functions of the queue, made at a time \<open>now\<close> while no other
  transaction holds a lock. A call that fails is rolled back and leaves the table as it
  was.
\<close>

datatype call =
    Enqueue_job uuid string jsonb int timestamptz
  | Get_next_job
  | Complete_job uuid bool "string option"
  | Cleanup_old_jobs int

fun exec_call :: "timestamptz \<times> call \<Rightarrow> job list \<Rightarrow> job list" where
  "exec_call (now, Enqueue_job new_id p_job_type p_payload p_priority p_scheduled_at) tbl =
     (case enqueue_job now new_id p_job_type p_payload p_priority p_scheduled_at tbl of
        Inl e \<Rightarrow> tbl
      | Inr (v_job_id, tbl') \<Rightarrow> tbl')"
| "exec_call (now, Get_next_job) tbl = snd (get_next_job now {} tbl)"
| "exec_call (now, Complete_job p_job_id p_success p_error_message) tbl =
     (case complete_job now p_job_id p_success p_error_message tbl of
        Inl e \<Rightarrow> tbl
      | Inr tbl' \<Rightarrow> tbl')"
| "exec_call (now, Cleanup_old_jobs p_days_old) tbl =
     (case cleanup_old_jobs now p_days_old tbl of
        Inl e \<Rightarrow> tbl
      | Inr (v_deleted_count, tbl') \<Rightarrow> tbl')"

fun exec_calls :: "(timestamptz \<times> call) list \<Rightarrow> job list \<Rightarrow> job list" where
  "exec_calls [] tbl = tbl"
| "exec_calls (c # cs) tbl = exec_calls cs (exec_call c tbl)"

subsection \<open>Notions of the statements\<close>

text \<open>
  A job is retired when it is not \<open>pending\<close> and its \<open>retry_count\<close> has reached
  \<open>max_retries\<close>; \<open>enqueues jid c\<close> holds when the call \<open>c\<close> inserts a job with the \<open>id\<close>
  \<open>jid\<close>.
\<close>

definition retired :: "uuid \<Rightarrow> job list \<Rightarrow> bool" where
  "retired jid tbl \<longleftrightarrow>
     (\<forall>j\<in>set tbl. job_id j = jid \<longrightarrow> status j \<noteq> Pending \<and> max_retries j \<le> retry_count j)"

fun enqueues :: "uuid \<Rightarrow> timestamptz \<times> call \<Rightarrow> bool" where
  "enqueues jid (now, Enqueue_job new_id t p pr s) = (new_id = jid)"
| "enqueues jid (now, c) = False"

text \<open>
  A call of \<open>increment_usage_metric\<close> with its environment and arguments, a sequence of
  such calls that stops at the first error, the calls of a sequence for one key with the
  amounts they add, and the three accumulators of a row.
\<close>

datatype increment = Increment timestamptz uuid date string string int int int

fun increment_all :: "increment list \<Rightarrow> usage_row list \<Rightarrow> pg_error + usage_row list" where
  "increment_all [] tbl = Inr tbl"
| "increment_all (Increment now new_id p_date p_provider p_service
                    p_usage_count p_tokens_used p_cost_cents # cs) tbl =
     (case increment_usage_metric now new_id p_date p_provider p_service
             p_usage_count p_tokens_used p_cost_cents tbl of
        Inl e \<Rightarrow> Inl e
      | Inr tbl' \<Rightarrow> increment_all cs tbl')"

fun on_key :: "date \<Rightarrow> string \<Rightarrow> string \<Rightarrow> increment \<Rightarrow> bool" where
  "on_key d p s (Increment now new_id p_date p_provider p_service u t c) \<longleftrightarrow>
     p_date = d \<and> p_provider = p \<and> p_service = s"

fun usage_delta :: "increment \<Rightarrow> int" where
  "usage_delta (Increment now new_id p_date p_provider p_service u t c) = u"

fun tokens_delta :: "increment \<Rightarrow> int" where
  "tokens_delta (Increment now new_id p_date p_provider p_service u t c) = t"

fun cost_delta :: "increment \<Rightarrow> int" where
  "cost_delta (Increment now new_id p_date p_provider p_service u t c) = c"

definition accumulators :: "usage_row \<Rightarrow> int \<times> int option \<times> int" where
  "accumulators r = (usage_count r, tokens_used r, estimated_cost_cents r)"

definition plus_deltas :: "int \<Rightarrow> int \<Rightarrow> int \<Rightarrow> int \<times> int option \<times> int \<Rightarrow> int \<times> int option \<times> int" where
  "plus_deltas u t c a =
     (case a of (u0, t0, c0) \<Rightarrow> (u0 + u, map_option (\<lambda>x. x + t) t0, c0 + c))"

text \<open>
  \<open>fails_completed c tbl\<close> holds when the call \<open>c\<close> is a \<open>complete_job\<close> with
  \<open>p_success = false\<close> for a job that is \<open>completed\<close> in \<open>tbl\<close>; \<open>never_fails_completed\<close>
  holds of a sequence of calls none of which is such a call in the table it finds. The
  two invariants of the queue are that a \<open>processing\<close> job has a \<open>started_at\<close>, and that a
  job with a \<open>completed_at\<close> is \<open>completed\<close>.
\<close>

fun fails_completed :: "timestamptz \<times> call \<Rightarrow> job list \<Rightarrow> bool" where
  "fails_completed (now, Complete_job p_job_id p_success p_error_message) tbl \<longleftrightarrow>
     \<not> p_success \<and> list_ex (\<lambda>j. job_id j = p_job_id \<and> status j = Completed) tbl"
| "fails_completed (now, c) tbl \<longleftrightarrow> False"

fun never_fails_completed :: "(timestamptz \<times> call) list \<Rightarrow> job list \<Rightarrow> bool" where
  "never_fails_completed [] tbl \<longleftrightarrow> True"
| "never_fails_completed (c # cs) tbl \<longleftrightarrow>
     \<not> fails_completed c tbl \<and> never_fails_completed cs (exec_call c tbl)"

definition started_when_processing :: "job list \<Rightarrow> bool" where
  "started_when_processing tbl \<longleftrightarrow>
     (\<forall>j\<in>set tbl. status j = Processing \<longrightarrow> started_at j \<noteq> None)"

definition completed_when_stamped :: "job list \<Rightarrow> bool" where
  "completed_when_stamped tbl \<longleftrightarrow>
     (\<forall>j\<in>set tbl. completed_at j \<noteq> None \<longrightarrow> status j = Completed)"

text \<open>
  Calls of \<open>get_next_job\<close> made one after the other, at the given times, with the rows
  they return.
\<close>

fun claim_serially :: "timestamptz list \<Rightarrow> job list \<Rightarrow> job list \<times> job list" where
  "claim_serially [] tbl = ([], tbl)"
| "claim_serially (now # nows) tbl =
     (case get_next_job now {} tbl of
        (ret, tbl') \<Rightarrow> (case claim_serially nows tbl' of (rets, tbl'') \<Rightarrow> (ret @ rets, tbl'')))"

subsection \<open>Rows of the examples\<close>

text \<open>
  The examples take place in the first seconds, minutes and days after the epoch of
  \<open>timestamptz\<close>, to keep their numbers short: the functions compare times and add to
  them, so that moving all times of an example by the same amount moves its result with
  them.
\<close>

text \<open>A job inserted with \<open>max_retries = 1\<close>, after its first and after its second failure.\<close>

definition job_1 :: job where
  "job_1 = \<lparr>job_id = 1, job_type = ''report'', payload = ''{}'', status = Pending,
             priority = 5, scheduled_at = 0, started_at = None, completed_at = None,
             error_message = None, retry_count = 0, max_retries = 1,
             created_at = 0, updated_at = 0\<rparr>"

definition job_1_retried :: job where
  "job_1_retried = job_1\<lparr>status := Processing, scheduled_at := 60000020,
      started_at := Some 70000000, error_message := Some ''boom'', retry_count := 1,
      updated_at := 70000000\<rparr>"

definition job_1_failed :: job where
  "job_1_failed = job_1\<lparr>status := Failed, scheduled_at := 60000020,
      started_at := None, error_message := Some ''boom again'', retry_count := 2,
      updated_at := 80000000\<rparr>"

text \<open>
  A job enqueued by \<open>enqueue_job\<close> that is being processed for the first time, for the
  second time, and after its three retries.
\<close>

definition job_2 :: job where
  "job_2 = \<lparr>job_id = 2, job_type = ''sync'', payload = ''{}'', status = Processing,
             priority = 5, scheduled_at = 500, started_at = Some 900, completed_at = None,
             error_message = None, retry_count = 0, max_retries = 3,
             created_at = 400, updated_at = 900\<rparr>"

definition job_2_retried :: job where
  "job_2_retried = job_2\<lparr>scheduled_at := 60001000, started_at := Some 60002000,
      retry_count := 1, updated_at := 60002000\<rparr>"

definition job_2_exhausted :: job where
  "job_2_exhausted = job_2\<lparr>scheduled_at := 300000000, started_at := Some 300000500,
      retry_count := 3, updated_at := 300000500\<rparr>"

text \<open>A job that completed, and a job that failed for good.\<close>

definition job_3 :: job where
  "job_3 = \<lparr>job_id = 3, job_type = ''email'', payload = ''{}'', status = Completed,
             priority = 5, scheduled_at = 0, started_at = Some 50, completed_at = Some 100,
             error_message = None, retry_count = 0, max_retries = 3,
             created_at = 0, updated_at = 100\<rparr>"

definition job_4 :: job where
  "job_4 = \<lparr>job_id = 4, job_type = ''email'', payload = ''{}'', status = Failed,
             priority = 5, scheduled_at = 0, started_at = None, completed_at = None,
             error_message = Some ''boom'', retry_count = 4, max_retries = 3,
             created_at = 0, updated_at = 100\<rparr>"

text \<open>
  Four pending jobs: one of low priority, two of the same higher priority, and one of the
  highest priority that is scheduled for later.
\<close>

definition job_5 :: job where
  "job_5 = \<lparr>job_id = 5, job_type = ''digest'', payload = ''{}'', status = Pending,
             priority = 1, scheduled_at = 100, started_at = None, completed_at = None,
             error_message = None, retry_count = 0, max_retries = 3,
             created_at = 100, updated_at = 100\<rparr>"

definition job_6 :: job where
  "job_6 = \<lparr>job_id = 6, job_type = ''digest'', payload = ''{}'', status = Pending,
             priority = 10, scheduled_at = 300, started_at = None, completed_at = None,
             error_message = None, retry_count = 0, max_retries = 3,
             created_at = 100, updated_at = 100\<rparr>"

definition job_7 :: job where
  "job_7 = \<lparr>job_id = 7, job_type = ''digest'', payload = ''{}'', status = Pending,
             priority = 10, scheduled_at = 200, started_at = None, completed_at = None,
             error_message = None, retry_count = 0, max_retries = 3,
             created_at = 100, updated_at = 100\<rparr>"

definition job_8 :: job where
  "job_8 = \<lparr>job_id = 8, job_type = ''digest'', payload = ''{}'', status = Pending,
             priority = 20, scheduled_at = 5000, started_at = None, completed_at = None,
             error_message = None, retry_count = 0, max_retries = 3,
             created_at = 100, updated_at = 100\<rparr>"

text \<open>
  Jobs of every status at the time of a cleanup: two of them \<open>completed\<close>, one long ago
  and one lately, and one \<open>failed\<close> with no \<open>completed_at\<close>.
\<close>

definition job_9 :: job where
  "job_9 = \<lparr>job_id = 9, job_type = ''export'', payload = ''{}'', status = Pending,
             priority = 5, scheduled_at = 0, started_at = None, completed_at = None,
             error_message = None, retry_count = 0, max_retries = 3,
             created_at = 0, updated_at = 0\<rparr>"

definition job_10 :: job where
  "job_10 = \<lparr>job_id = 10, job_type = ''export'', payload = ''{}'', status = Processing,
             priority = 5, scheduled_at = 0, started_at = Some 1000, completed_at = None,
             error_message = None, retry_count = 0, max_retries = 3,
             created_at = 0, updated_at = 1000\<rparr>"

definition job_11 :: job where
  "job_11 = \<lparr>job_id = 11, job_type = ''export'', payload = ''{}'', status = Completed,
             priority = 5, scheduled_at = 0, started_at = Some 1000, completed_at = Some 2000,
             error_message = None, retry_count = 0, max_retries = 3,
             created_at = 0, updated_at = 2000\<rparr>"

definition job_12 :: job where
  "job_12 = \<lparr>job_id = 12, job_type = ''export'', payload = ''{}'', status = Completed,
             priority = 5, scheduled_at = 0, started_at = Some 1000,
             completed_at = Some 700000000000,
             error_message = None, retry_count = 0, max_retries = 3,
             created_at = 0, updated_at = 700000000000\<rparr>"

definition job_13 :: job where
  "job_13 = \<lparr>job_id = 13, job_type = ''export'', payload = ''{}'', status = Failed,
             priority = 5, scheduled_at = 0, started_at = None, completed_at = None,
             error_message = Some ''boom'', retry_count = 4, max_retries = 3,
             created_at = 0, updated_at = 3000\<rparr>"

text \<open>Four increments on two keys, and the table they leave.\<close>

definition increments_1 :: "increment list" where
  "increments_1 =
     [Increment 10 1 9800 ''openai'' ''chat'' 1 100 3,
      Increment 11 2 9800 ''openai'' ''chat'' 1 250 7,
      Increment 12 3 9800 ''anthropic'' ''chat'' 1 40 2,
      Increment 13 4 9800 ''openai'' ''chat'' 2 0 0]"

definition metrics_1 :: "usage_row list" where
  "metrics_1 =
     [\<lparr>metric_id = 1, date = 9800, provider = ''openai'', service = ''chat'',
       usage_count = 4, tokens_used = Some 350, estimated_cost_cents = 10,
       metadata = ''{}'', metric_created_at = 10, metric_updated_at = 13\<rparr>,
      \<lparr>metric_id = 3, date = 9800, provider = ''anthropic'', service = ''chat'',
       usage_count = 1, tokens_used = Some 40, estimated_cost_cents = 2,
       metadata = ''{}'', metric_created_at = 12, metric_updated_at = 12\<rparr>]"

text \<open>
  Sequences of calls on the empty queue: a job that fails three times; a job that fails
  once and is claimed again; a job
  that is completed with success, then with failure, and claimed again; and the same job
  failing until its retries are used up.
\<close>

definition calls_three_failures :: "(timestamptz \<times> call) list" where
  "calls_three_failures =
     [(0, Enqueue_job 1 ''report'' ''{}'' 5 0),
      (10, Get_next_job),
      (20, Complete_job 1 False (Some ''boom'')),
      (70000000, Get_next_job),
      (70000010, Complete_job 1 False (Some ''boom'')),
      (200000000, Get_next_job),
      (200000010, Complete_job 1 False (Some ''boom''))]"

definition calls_retry :: "(timestamptz \<times> call) list" where
  "calls_retry =
     [(0, Enqueue_job 1 ''report'' ''{}'' 5 0),
      (10, Get_next_job),
      (30, Complete_job 1 False (Some ''boom'')),
      (70000000, Get_next_job)]"

definition calls_reopen :: "(timestamptz \<times> call) list" where
  "calls_reopen =
     [(0, Enqueue_job 1 ''report'' ''{}'' 5 0),
      (10, Get_next_job),
      (20, Complete_job 1 True None),
      (30, Complete_job 1 False (Some ''late'')),
      (70000000, Get_next_job)]"

definition calls_fail_stamped :: "(timestamptz \<times> call) list" where
  "calls_fail_stamped =
     [(0, Enqueue_job 1 ''report'' ''{}'' 5 0),
      (10, Get_next_job),
      (20, Complete_job 1 True None),
      (30, Complete_job 1 False (Some ''late'')),
      (70000000, Get_next_job),
      (70000010, Complete_job 1 False (Some ''boom'')),
      (200000000, Get_next_job),
      (200000010, Complete_job 1 False (Some ''boom'')),
      (500000000, Get_next_job),
      (500000010, Complete_job 1 False (Some ''boom''))]"

definition job_1_stamped :: job where
  "job_1_stamped =
     \<lparr>job_id = 1, job_type = ''report'', payload = ''{}'', status = Failed,
      priority = 5, scheduled_at = 440000010, started_at = None,
      completed_at = Some 20, error_message = Some ''boom'', retry_count = 4,
      max_retries = 3, created_at = 0, updated_at = 500000010\<rparr>"

section \<open>Properties\<close>

subsection \<open>The statements, row by row\<close>

lemma update_where_Inr:
  "update_where P f rs = Inr rs' \<Longrightarrow>
     length rs' = length rs \<and>
     (\<forall>i<length rs. if P (rs ! i) then f (rs ! i) = Inr (rs' ! i) else rs' ! i = rs ! i)"
proof (induction rs arbitrary: rs')
  case Nil
  then show ?case by simp
next
  case (Cons r rs)
  from Cons.prems obtain r' rs0 where
    h: "(if P r then f r else Inr r) = Inr r'" "update_where P f rs = Inr rs0" "rs' = r' # rs0"
    by (auto split: sum.splits)
  from Cons.IH[OF h(2)] have ih: "length rs0 = length rs"
    "\<And>i. i < length rs \<Longrightarrow> (if P (rs ! i) then f (rs ! i) = Inr (rs0 ! i) else rs0 ! i = rs ! i)"
    by auto
  show ?case
  proof (intro conjI allI impI)
    show "length rs' = length (r # rs)" using h ih by simp
  next
    fix i assume "i < length (r # rs)"
    then show "if P ((r # rs) ! i) then f ((r # rs) ! i) = Inr (rs' ! i) else rs' ! i = (r # rs) ! i"
      using h ih by (cases i) (auto split: if_splits)
  qed
qed

lemma fail_row_Inr:
  assumes "fail_row now msg j = Inr j'"
  shows "retry_count j' = retry_count j + 1"
    and "status j' = (if retry_count j < max_retries j then Pending else Failed)"
    and "max_retries j' = max_retries j"
    and "job_id j' = job_id j"
    and "completed_at j' = completed_at j"
    and "started_at j' = None"
    and "error_message j' = msg"
    and "updated_at j' = now"
    and "retry_count j \<ge> max_retries j \<Longrightarrow> scheduled_at j' = scheduled_at j"
    and "retry_count j < max_retries j \<Longrightarrow> backoff (retry_count j) = Inr d \<Longrightarrow> scheduled_at j' = now + d"
  using assms
  by (auto simp: fail_row_def int4pl_def timestamptz_pl_def update_job_queue_timestamp_def Let_def
      split: sum.splits if_splits)


lemma claim_row_fields:
  "job_id (claim_row now j) = job_id j"
  "status (claim_row now j) = Processing"
  "started_at (claim_row now j) = Some now"
  "completed_at (claim_row now j) = completed_at j"
  "retry_count (claim_row now j) = retry_count j"
  "max_retries (claim_row now j) = max_retries j"
  "priority (claim_row now j) = priority j"
  "scheduled_at (claim_row now j) = scheduled_at j"
  by (simp_all add: claim_row_def update_job_queue_timestamp_def)

lemma limit_1_in: "limit_1 js = Some s \<Longrightarrow> s \<in> set js"
  by (induction js arbitrary: s) (auto split: option.splits if_splits)

lemma limit_1_None: "limit_1 js = None \<longleftrightarrow> js = []"
  by (cases js) (auto split: option.splits)

lemma complete_job_fail_length:
  "complete_job now jid False msg tbl = Inr tbl' \<Longrightarrow> length tbl' = length tbl"
  by (simp add: complete_job_def update_where_Inr)

lemma complete_job_fail_nth:
  "complete_job now jid False msg tbl = Inr tbl' \<Longrightarrow> i < length tbl \<Longrightarrow>
     (if job_id (tbl ! i) = jid then fail_row now msg (tbl ! i) = Inr (tbl' ! i)
      else tbl' ! i = tbl ! i)"
  using update_where_Inr[of "\<lambda>j. job_id j = jid" "fail_row now msg" tbl tbl']
  by (simp add: complete_job_def)

lemma backoff_nonneg:
  "backoff n = Inr d \<Longrightarrow> 0 \<le> n \<Longrightarrow> d = 2 ^ nat n * 60000000"
  by (auto simp: backoff_def Let_def split: if_splits)

lemma fail_row_backoff:
  assumes "fail_row now msg j = Inr j'" and "retry_count j < max_retries j"
    and "0 \<le> retry_count j"
  shows "scheduled_at j' = now + 2 ^ nat (retry_count j) * 60000000"
proof -
  from assms(1,2) obtain d where d: "backoff (retry_count j) = Inr d"
    by (auto simp: fail_row_def split: sum.splits if_splits)
  from fail_row_Inr(10)[OF assms(1,2) d] backoff_nonneg[OF d assms(3)]
  show ?thesis by simp
qed

lemma update_where_list_update:
  "i < length rs \<Longrightarrow> P (rs ! i) \<Longrightarrow> P r' \<Longrightarrow> f r' = f (rs ! i) \<Longrightarrow>
     update_where P f (rs[i := r']) = update_where P f rs"
proof (induction rs arbitrary: i)
  case Nil
  then show ?case by simp
next
  case (Cons r rs)
  show ?case
  proof (cases i)
    case 0
    with Cons.prems show ?thesis by simp
  next
    case (Suc n)
    with Cons.prems have "update_where P f (rs[n := r']) = update_where P f rs"
      by (intro Cons.IH) simp_all
    with Suc show ?thesis by (simp split: sum.splits)
  qed
qed

lemma fail_row_status: "fail_row now msg (j\<lparr>status := s\<rparr>) = fail_row now msg j"
  by (simp add: fail_row_def update_job_queue_timestamp_def split: sum.splits)

lemma succeed_row_status: "succeed_row now (j\<lparr>status := s\<rparr>) = succeed_row now j"
  by (simp add: succeed_row_def update_job_queue_timestamp_def)

lemma complete_job_status:
  assumes "i < length tbl" and "job_id (tbl ! i) = p_job_id"
  shows "complete_job now p_job_id p_success msg (tbl[i := (tbl ! i)\<lparr>status := s\<rparr>]) =
         complete_job now p_job_id p_success msg tbl"
proof (cases p_success)
  case True
  have "map (\<lambda>j. if job_id j = p_job_id then succeed_row now j else j)
          (tbl[i := (tbl ! i)\<lparr>status := s\<rparr>]) =
        (map (\<lambda>j. if job_id j = p_job_id then succeed_row now j else j) tbl)
          [i := succeed_row now (tbl ! i)]"
    using assms by (simp add: map_update succeed_row_status)
  also have "\<dots> = map (\<lambda>j. if job_id j = p_job_id then succeed_row now j else j) tbl"
    using assms by (simp add: list_update_same_conv)
  finally show ?thesis using True by (simp add: complete_job_def)
next
  case False
  then show ?thesis using assms
    by (simp add: complete_job_def update_where_list_update fail_row_status)
qed

lemma complete_job_success_nth:
  "complete_job now jid True msg tbl = Inr tbl' \<Longrightarrow> i < length tbl \<Longrightarrow>
     tbl' ! i = (if job_id (tbl ! i) = jid then succeed_row now (tbl ! i) else tbl ! i)"
  by (auto simp: complete_job_def)

lemma sorts_before_asym: "sorts_before a b \<Longrightarrow> \<not> sorts_before b a"
  by (auto simp: sorts_before_def)

lemma sorts_before_irrefl: "\<not> sorts_before a a"
  by (simp add: sorts_before_def)

lemma not_sorts_before_trans:
  "\<not> sorts_before k b \<Longrightarrow> \<not> sorts_before b j \<Longrightarrow> \<not> sorts_before k j"
  by (auto simp: sorts_before_def)

lemma limit_1_first:
  "limit_1 js = Some s \<Longrightarrow> k \<in> set js \<Longrightarrow> \<not> sorts_before k s"
proof (induction js arbitrary: s)
  case Nil
  then show ?case by simp
next
  case (Cons j js)
  show ?case
  proof (cases "limit_1 js")
    case None
    then have "js = []" by (simp add: limit_1_None)
    with Cons.prems None have "s = j" "k = j" by simp_all
    then show ?thesis by (simp add: sorts_before_irrefl)
  next
    case (Some b)
    have ih: "k \<in> set js \<Longrightarrow> \<not> sorts_before k b" by (rule Cons.IH[OF Some])
    show ?thesis
    proof (cases "sorts_before b j")
      case before: True
      with Some Cons.prems(1) have s: "s = b" by simp
      show ?thesis
      proof (cases "k = j")
        case True
        with before s show ?thesis by (simp add: sorts_before_asym)
      next
        case False
        with Cons.prems(2) have "k \<in> set js" by simp
        with ih s show ?thesis by simp
      qed
    next
      case after: False
      with Some Cons.prems(1) have s: "s = j" by simp
      show ?thesis
      proof (cases "k = j")
        case True
        with s show ?thesis by (simp add: sorts_before_irrefl)
      next
        case False
        with Cons.prems(2) have "k \<in> set js" by simp
        from not_sorts_before_trans[OF ih[OF this] after] s show ?thesis by simp
      qed
    qed
  qed
qed

lemma distinct_filter_same:
  "distinct (map f xs) \<Longrightarrow> x \<in> set xs \<Longrightarrow> filter (\<lambda>y. f y = f x) xs = [x]"
proof (induction xs)
  case Nil
  then show ?case by simp
next
  case (Cons a xs)
  show ?case
  proof (cases "x = a")
    case True
    have "f a \<notin> f ` set xs" using Cons.prems(1) by simp
    then have "\<And>y. y \<in> set xs \<Longrightarrow> f y \<noteq> f a" by (metis imageI)
    then have "filter (\<lambda>y. f y = f a) xs = []"
      by (simp add: filter_empty_conv)
    with True show ?thesis by simp
  next
    case False
    with Cons.prems have "x \<in> set xs" "f a \<noteq> f x" by auto
    with Cons show ?thesis by simp
  qed
qed

lemma distinct_map_same:
  assumes "distinct (map f xs)" and "i < length xs"
  shows "map (\<lambda>y. if f y = f (xs ! i) then g y else y) xs = xs[i := g (xs ! i)]"
proof (rule nth_equalityI)
  show "length (map (\<lambda>y. if f y = f (xs ! i) then g y else y) xs) = length (xs[i := g (xs ! i)])"
    by simp
next
  fix k assume "k < length (map (\<lambda>y. if f y = f (xs ! i) then g y else y) xs)"
  then have k: "k < length xs" by simp
  have "f (xs ! k) = f (xs ! i) \<longleftrightarrow> k = i"
    using assms k by (metis length_map nth_eq_iff_index_eq nth_map)
  then show "map (\<lambda>y. if f y = f (xs ! i) then g y else y) xs ! k = xs[i := g (xs ! i)] ! k"
    using k assms(2) by (auto simp: nth_list_update)
qed

lemma get_next_job_none:
  "\<not> (\<exists>j\<in>set tbl. claimable now locked j) \<Longrightarrow> get_next_job now locked tbl = ([], tbl)"
proof -
  assume "\<not> (\<exists>j\<in>set tbl. claimable now locked j)"
  then have "filter (claimable now locked) tbl = []" by (simp add: filter_empty_conv)
  then show ?thesis by (simp add: get_next_job_def)
qed

lemma get_next_job_some:
  assumes "distinct (map job_id tbl)" and "\<exists>j\<in>set tbl. claimable now locked j"
  shows "\<exists>i<length tbl. claimable now locked (tbl ! i) \<and>
           (\<forall>k\<in>set tbl. claimable now locked k \<longrightarrow> \<not> sorts_before k (tbl ! i)) \<and>
           get_next_job now locked tbl =
             ([claim_row now (tbl ! i)], tbl[i := claim_row now (tbl ! i)])"
proof -
  from assms(2) have "filter (claimable now locked) tbl \<noteq> []"
    by (simp add: filter_empty_conv)
  then obtain s where s: "limit_1 (filter (claimable now locked) tbl) = Some s"
    by (cases "limit_1 (filter (claimable now locked) tbl)") (auto simp: limit_1_None)
  from limit_1_in[OF s] have mem: "s \<in> set tbl" and cl: "claimable now locked s" by auto
  then obtain i where i: "i < length tbl" "tbl ! i = s" by (auto simp: in_set_conv_nth)
  have best: "\<forall>k\<in>set tbl. claimable now locked k \<longrightarrow> \<not> sorts_before k s"
    using limit_1_first[OF s] by simp
  have ret: "filter (\<lambda>j. job_id j = job_id s) tbl = [s]"
    using distinct_filter_same[OF assms(1) mem] .
  have upd: "map (\<lambda>j. if job_id j = job_id s then claim_row now j else j) tbl =
      tbl[i := claim_row now s]"
    using distinct_map_same[OF assms(1) i(1), of "claim_row now"] i(2) by simp
  have "get_next_job now locked tbl = ([claim_row now s], tbl[i := claim_row now s])"
    using s ret upd by (simp add: get_next_job_def)
  with i cl best show ?thesis by auto
qed

lemma int4pl_Inr: "int4pl a b = Inr r \<Longrightarrow> r = a + b"
  by (auto simp: int4pl_def Let_def split: if_splits)

lemma accumulate_Inr:
  assumes "accumulate now u t c r = Inr r'"
  shows "accumulators r' = plus_deltas u t c (accumulators r)"
    and "same_key d p s r' = same_key d p s r"
  using assms
  by (auto simp: accumulate_def accumulators_def plus_deltas_def same_key_def
      split: sum.splits option.splits dest!: int4pl_Inr)

lemma update_where_accumulate:
  "update_where P (accumulate now u t c) tbl = Inr tbl' \<Longrightarrow>
     map accumulators (filter (same_key d p s) tbl') =
     map (\<lambda>r. if P r then plus_deltas u t c (accumulators r) else accumulators r)
       (filter (same_key d p s) tbl)"
proof (induction tbl arbitrary: tbl')
  case Nil
  then show ?case by simp
next
  case (Cons r rs)
  from Cons.prems obtain r' rs' where
    h: "(if P r then accumulate now u t c r else Inr r) = Inr r'"
      "update_where P (accumulate now u t c) rs = Inr rs'" "tbl' = r' # rs'"
    by (auto split: sum.splits)
  have r': "same_key d p s r' = same_key d p s r"
    "accumulators r' = (if P r then plus_deltas u t c (accumulators r) else accumulators r)"
    using h(1) accumulate_Inr[of now u t c r r'] by (auto split: if_splits)
  from Cons.IH[OF h(2)] r' h(3) show ?case by simp
qed

lemma increment_usage_metric_step:
  assumes "increment_usage_metric now new_id d' p' s' u t c tbl = Inr tbl'"
  shows "map accumulators (filter (same_key d p s) tbl') =
     (if d' = d \<and> p' = p \<and> s' = s
      then (if filter (same_key d p s) tbl = [] then [(u, Some t, c)]
            else map (plus_deltas u t c) (map accumulators (filter (same_key d p s) tbl)))
      else map accumulators (filter (same_key d p s) tbl))"
proof (cases "list_ex (same_key d' p' s') tbl")
  case True
  with assms have upd: "update_where (same_key d' p' s') (accumulate now u t c) tbl = Inr tbl'"
    by (simp add: increment_usage_metric_def)
  note m = update_where_accumulate[OF upd, of d p s]
  show ?thesis
  proof (cases "d' = d \<and> p' = p \<and> s' = s")
    case same: True
    with True have "filter (same_key d p s) tbl \<noteq> []"
      by (auto simp: list_ex_iff filter_empty_conv)
    moreover have "map (\<lambda>r. if same_key d' p' s' r then plus_deltas u t c (accumulators r)
                            else accumulators r) (filter (same_key d p s) tbl) =
        map (plus_deltas u t c) (map accumulators (filter (same_key d p s) tbl))"
      using same by simp
    ultimately show ?thesis using m same by simp
  next
    case other: False
    have "map (\<lambda>r. if same_key d' p' s' r then plus_deltas u t c (accumulators r)
                    else accumulators r) (filter (same_key d p s) tbl) =
        map accumulators (filter (same_key d p s) tbl)"
      using other by (auto simp: same_key_def)
    with m show ?thesis unfolding if_not_P[OF other] by simp
  qed
next
  case False
  with assms have app: "tbl' = tbl @ [proposed_row now new_id d' p' s' u t c]"
    by (simp add: increment_usage_metric_def split: if_splits)
  have k: "same_key d p s (proposed_row now new_id d' p' s' u t c) \<longleftrightarrow> d' = d \<and> p' = p \<and> s' = s"
    by (simp add: same_key_def proposed_row_def)
  have a: "accumulators (proposed_row now new_id d' p' s' u t c) = (u, Some t, c)"
    by (simp add: accumulators_def proposed_row_def)
  show ?thesis
  proof (cases "d' = d \<and> p' = p \<and> s' = s")
    case True
    with False have "filter (same_key d p s) tbl = []"
      by (auto simp: list_ex_iff filter_empty_conv)
    with app k a True show ?thesis by simp
  next
    case other: False
    with app k show ?thesis unfolding if_not_P[OF other] by simp
  qed
qed

lemma plus_deltas_0: "plus_deltas 0 0 0 a = a"
proof -
  obtain u0 t0 c0 where "a = (u0, t0, c0)" by (cases a)
  then show ?thesis by (cases t0) (simp_all add: plus_deltas_def)
qed

lemma plus_deltas_plus_deltas:
  "plus_deltas u2 t2 c2 (plus_deltas u1 t1 c1 a) = plus_deltas (u1 + u2) (t1 + t2) (c1 + c2) a"
proof -
  obtain u0 t0 c0 where "a = (u0, t0, c0)" by (cases a)
  then show ?thesis by (cases t0) (simp_all add: plus_deltas_def)
qed

lemma map_plus_deltas:
  "map (plus_deltas u2 t2 c2) (map (plus_deltas u1 t1 c1) as) =
   map (plus_deltas (u1 + u2) (t1 + t2) (c1 + c2)) as"
  by (simp add: plus_deltas_plus_deltas)

lemma accumulate_fields:
  assumes "accumulate now u t c r = Inr r'"
  shows "usage_count r' = usage_count r + u"
    and "estimated_cost_cents r' = estimated_cost_cents r + c"
    and "tokens_used r' = map_option (\<lambda>x. x + t) (tokens_used r)"
    and "date r' = date r" and "provider r' = provider r" and "service r' = service r"
  using assms
  by (auto simp: accumulate_def split: sum.splits option.splits dest!: int4pl_Inr)

lemma days_before_Inr: "days_before now d = Inr cutoff \<Longrightarrow> cutoff = now - d * 86400000000"
  by (auto simp: days_before_def timestamptz_pl_def Let_def split: if_splits)

lemma cleanup_old_jobs_Inr:
  assumes "cleanup_old_jobs now d tbl = Inr (n, tbl')"
  shows "tbl' = filter (\<lambda>j. \<not> expired (now - d * 86400000000) j) tbl"
    and "n = int (length (filter (expired (now - d * 86400000000)) tbl))"
proof -
  from assms obtain cutoff where c: "days_before now d = Inr cutoff"
    by (auto simp: cleanup_old_jobs_def split: sum.splits)
  from days_before_Inr[OF c] have "cutoff = now - d * 86400000000" .
  with assms c show "tbl' = filter (\<lambda>j. \<not> expired (now - d * 86400000000) j) tbl"
    and "n = int (length (filter (expired (now - d * 86400000000)) tbl))"
    by (auto simp: cleanup_old_jobs_def Let_def split: if_splits)
qed

lemma expired_iff:
  "expired (now - d * 86400000000) j \<longleftrightarrow>
     (status j = Completed \<or> status j = Failed) \<and>
     (\<exists>c. completed_at j = Some c \<and> d * 86400000000 < now - c)"
  by (cases "completed_at j") (auto simp: expired_def)

lemma update_where_set:
  assumes "update_where P f rs = Inr rs'" and "r' \<in> set rs'"
  shows "\<exists>r\<in>set rs. if P r then f r = Inr r' else r' = r"
proof -
  from assms(2) obtain i where i: "i < length rs'" "rs' ! i = r'"
    by (auto simp: in_set_conv_nth)
  from update_where_Inr[OF assms(1)] i
  have "i < length rs" "if P (rs ! i) then f (rs ! i) = Inr r' else r' = rs ! i"
    by auto
  then show ?thesis using nth_mem by blast
qed

lemma succeed_row_fields:
  "status (succeed_row now j) = Completed"
  "completed_at (succeed_row now j) = Some now"
  "job_id (succeed_row now j) = job_id j"
  "retry_count (succeed_row now j) = retry_count j"
  "started_at (succeed_row now j) = started_at j"
  by (simp_all add: succeed_row_def update_job_queue_timestamp_def)

lemma complete_job_set:
  assumes "complete_job now jid ok msg tbl = Inr tbl'" and "j' \<in> set tbl'"
  shows "\<exists>j\<in>set tbl. if job_id j = jid
           then (if ok then j' = succeed_row now j else fail_row now msg j = Inr j')
           else j' = j"
proof (cases ok)
  case True
  with assms show ?thesis by (auto simp: complete_job_def)
next
  case False
  with assms(1) have "update_where (\<lambda>j. job_id j = jid) (fail_row now msg) tbl = Inr tbl'"
    by (simp add: complete_job_def)
  from update_where_set[OF this assms(2)] obtain j where
    "j \<in> set tbl" "if job_id j = jid then fail_row now msg j = Inr j' else j' = j"
    by blast
  with False show ?thesis by (intro bexI[of _ j]) auto
qed

lemma get_next_job_set:
  assumes "distinct (map job_id tbl)" and "j' \<in> set (snd (get_next_job now locked tbl))"
  shows "j' \<in> set tbl \<or> (\<exists>j\<in>set tbl. status j = Pending \<and> j' = claim_row now j)"
proof (cases "\<exists>j\<in>set tbl. claimable now locked j")
  case False
  with get_next_job_none[of tbl now locked] assms(2) show ?thesis by simp
next
  case True
  from get_next_job_some[OF assms(1) True] obtain i where
    i: "i < length tbl" "claimable now locked (tbl ! i)"
      "get_next_job now locked tbl = ([claim_row now (tbl ! i)], tbl[i := claim_row now (tbl ! i)])"
    by blast
  with assms(2) have "j' \<in> insert (claim_row now (tbl ! i)) (set tbl)"
    using set_update_subset_insert[of tbl i "claim_row now (tbl ! i)"] by auto
  with i(1,2) show ?thesis by (auto simp: claimable_def)
qed

subsection \<open>Retry or failure of a job (C1)\<close>

text \<open>
  A job is retired when it is not \<open>pending\<close> and has used up its retries. No call but an
  \<open>enqueue_job\<close> that draws the \<open>uuid\<close> of the job again makes a retired job \<open>pending\<close>.
\<close>

lemma retired_get_next_job:
  assumes "retired jid tbl"
  shows "retired jid (snd (get_next_job now locked tbl))"
    and "\<forall>r\<in>set (fst (get_next_job now locked tbl)). job_id r \<noteq> jid"
proof -
  show "retired jid (snd (get_next_job now locked tbl))"
  proof (cases "limit_1 (filter (claimable now locked) tbl)")
    case None
    then show ?thesis using assms by (simp add: get_next_job_def)
  next
    case (Some s)
    from limit_1_in[OF Some] have "s \<in> set tbl" "status s = Pending"
      by (auto simp: claimable_def)
    with assms have "job_id s \<noteq> jid" by (auto simp: retired_def)
    then show ?thesis using assms Some
      by (auto simp: get_next_job_def retired_def claim_row_fields)
  qed
  show "\<forall>r\<in>set (fst (get_next_job now locked tbl)). job_id r \<noteq> jid"
  proof (cases "limit_1 (filter (claimable now locked) tbl)")
    case None
    then show ?thesis by (simp add: get_next_job_def)
  next
    case (Some s)
    from limit_1_in[OF Some] have "s \<in> set tbl" "status s = Pending"
      by (auto simp: claimable_def)
    with assms have "job_id s \<noteq> jid" by (auto simp: retired_def)
    then show ?thesis using Some
      by (auto simp: get_next_job_def claim_row_fields)
  qed
qed

lemma retired_complete_job:
  assumes "retired jid tbl" "complete_job now p_job_id p_success msg tbl = Inr tbl'"
  shows "retired jid tbl'"
proof (cases p_success)
  case True
  then show ?thesis using assms
    by (auto simp: complete_job_def retired_def succeed_row_def update_job_queue_timestamp_def)
next
  case False
  show ?thesis unfolding retired_def
  proof (intro ballI impI)
    fix j' assume "j' \<in> set tbl'" "job_id j' = jid"
    then obtain i where i: "i < length tbl'" "tbl' ! i = j'" by (auto simp: in_set_conv_nth)
    from assms(2) False have len: "length tbl' = length tbl"
      by (simp add: complete_job_fail_length)
    have mem: "tbl ! i \<in> set tbl" using i len by simp
    from complete_job_fail_nth[of now p_job_id msg tbl tbl' i] assms(2) False i len
    have c: "if job_id (tbl ! i) = p_job_id then fail_row now msg (tbl ! i) = Inr j' else j' = tbl ! i"
      by (auto split: if_splits)
    show "status j' \<noteq> Pending \<and> max_retries j' \<le> retry_count j'"
    proof (cases "job_id (tbl ! i) = p_job_id")
      case True
      with c have f: "fail_row now msg (tbl ! i) = Inr j'" by simp
      from fail_row_Inr(4)[OF f] \<open>job_id j' = jid\<close> have "job_id (tbl ! i) = jid" by simp
      with assms(1) mem have "max_retries (tbl ! i) \<le> retry_count (tbl ! i)"
        by (auto simp: retired_def)
      then show ?thesis using fail_row_Inr(1,2,3)[OF f] by simp
    next
      case False
      with c have "j' = tbl ! i" by simp
      then show ?thesis using assms(1) mem \<open>job_id j' = jid\<close> by (auto simp: retired_def)
    qed
  qed
qed

lemma retired_exec_call:
  assumes "retired jid tbl" "\<not> enqueues jid c"
  shows "retired jid (exec_call c tbl)"
proof (cases c)
  case (Pair now k)
  show ?thesis
  proof (cases k)
    case (Enqueue_job new_id t p pr s)
    then show ?thesis using assms Pair
      by (auto simp: enqueue_job_def retired_def split: if_splits)
  next
    case Get_next_job
    then show ?thesis using retired_get_next_job(1)[OF assms(1)] Pair by simp
  next
    case (Complete_job p_job_id p_success msg)
    then show ?thesis using assms(1) Pair retired_complete_job
      by (auto split: sum.splits)
  next
    case (Cleanup_old_jobs d)
    then show ?thesis using assms(1) Pair
      by (auto simp: cleanup_old_jobs_def retired_def Let_def split: sum.splits if_splits)
  qed
qed

lemma retired_exec_calls:
  "retired jid tbl \<Longrightarrow> \<forall>c\<in>set cs. \<not> enqueues jid c \<Longrightarrow> retired jid (exec_calls cs tbl)"
  by (induction cs arbitrary: tbl) (auto simp: retired_exec_call)

text \<open>
  C1, as the code has it. For a job in status \<open>processing\<close>, \<open>complete_job\<close> with
  \<open>p_success = false\<close> adds one to \<open>retry_count\<close> and leaves \<open>max_retries\<close>; the job is
  \<open>pending\<close> again when the new \<open>retry_count\<close> is at most \<open>max_retries\<close> (the old one was
  less), and \<open>failed\<close> when the new \<open>retry_count\<close> is greater than \<open>max_retries\<close>. A job
  that failed so is returned by no later \<open>get_next_job\<close>, whatever calls are made in
  between, as long as no \<open>enqueue_job\<close> draws its \<open>uuid\<close> again. The rows of the table have
  distinct \<open>id\<close>s, as the primary key demands.
\<close>

theorem complete_job_failure_transition:
  assumes "i < length tbl" and "job_id (tbl ! i) = p_job_id" and "status (tbl ! i) = Processing"
    and "distinct (map job_id tbl)"
    and "complete_job now p_job_id False msg tbl = Inr tbl'"
  shows "retry_count (tbl' ! i) = retry_count (tbl ! i) + 1 \<and>
         max_retries (tbl' ! i) = max_retries (tbl ! i) \<and>
         status (tbl' ! i) =
           (if retry_count (tbl' ! i) \<le> max_retries (tbl' ! i) then Pending else Failed) \<and>
         (status (tbl' ! i) = Failed \<longrightarrow>
            (\<forall>cs now' locked. (\<forall>c\<in>set cs. \<not> enqueues p_job_id c) \<longrightarrow>
               (\<forall>r\<in>set (fst (get_next_job now' locked (exec_calls cs tbl'))).
                  job_id r \<noteq> p_job_id)))"
proof -
  from complete_job_fail_nth[OF assms(5) assms(1)] assms(2)
  have f: "fail_row now msg (tbl ! i) = Inr (tbl' ! i)" by simp
  have len: "length tbl' = length tbl" using assms(5) by (rule complete_job_fail_length)
  have a: "retry_count (tbl' ! i) = retry_count (tbl ! i) + 1"
    and b: "max_retries (tbl' ! i) = max_retries (tbl ! i)"
    and c: "status (tbl' ! i) = (if retry_count (tbl ! i) < max_retries (tbl ! i) then Pending else Failed)"
    using fail_row_Inr(1,2,3)[OF f] by simp_all
  have d: "status (tbl' ! i) = (if retry_count (tbl' ! i) \<le> max_retries (tbl' ! i) then Pending else Failed)"
    using a b c by simp
  have e: "retired p_job_id tbl'" if "status (tbl' ! i) = Failed"
    unfolding retired_def
  proof (intro ballI impI)
    fix j' assume "j' \<in> set tbl'" "job_id j' = p_job_id"
    then obtain k where k: "k < length tbl'" "tbl' ! k = j'" by (auto simp: in_set_conv_nth)
    from complete_job_fail_nth[OF assms(5), of k] k len
    have ck: "if job_id (tbl ! k) = p_job_id then fail_row now msg (tbl ! k) = Inr j' else j' = tbl ! k"
      by (auto split: if_splits)
    have "job_id (tbl ! k) = p_job_id"
      using ck \<open>job_id j' = p_job_id\<close> fail_row_Inr(4) by (auto split: if_splits)
    with assms(1,2,4) k len have "k = i"
      by (metis length_map nth_eq_iff_index_eq nth_map)
    with k that a b c show "status j' \<noteq> Pending \<and> max_retries j' \<le> retry_count j'"
      by (auto split: if_splits)
  qed
  show ?thesis
    using a b d e retired_exec_calls retired_get_next_job(2) by blast
qed



text \<open>
  C1 as the specification has it fails: a job with \<open>max_retries = 1\<close> that is claimed and
  fails for the first time has the new \<open>retry_count = 1\<close>, which is not less than
  \<open>max_retries\<close>, and is \<open>pending\<close> again, to be run one minute later; it is not \<open>failed\<close>.
  Likewise a job of \<open>enqueue_job\<close>, whose \<open>max_retries\<close> is 3, is \<open>pending\<close> with
  \<open>retry_count = 3\<close> after its third failure.
\<close>

theorem complete_job_failure_transition_counterexample:
  "complete_job 20 1 False (Some ''boom'') (snd (get_next_job 10 {} [job_1])) =
     Inr [job_1\<lparr>status := Pending, scheduled_at := 60000020, started_at := None,
                error_message := Some ''boom'', retry_count := 1, updated_at := 20\<rparr>] \<and>
   max_retries job_1 = 1 \<and>
   exec_calls calls_three_failures [] =
     [\<lparr>job_id = 1, job_type = ''report'', payload = ''{}'', status = Pending,
       priority = 5, scheduled_at = 440000010, started_at = None,
       completed_at = None, error_message = Some ''boom'', retry_count = 3,
       max_retries = 3, created_at = 0, updated_at = 200000010\<rparr>]"
  by (simp add: job_1_def calls_three_failures_def enqueue_job_def get_next_job_def
      claimable_def claim_row_def complete_job_def fail_row_def int4pl_def backoff_def
      timestamptz_pl_def MIN_TIMESTAMP_def END_TIMESTAMP_def update_job_queue_timestamp_def)

text \<open>
  The second failure of that job: \<open>retry_count\<close> becomes 2, the job is \<open>failed\<close>, and a
  later \<open>get_next_job\<close> returns nothing.
\<close>

theorem complete_job_failure_transition_witness:
  "complete_job 80000000 1 False (Some ''boom again'') [job_1_retried] = Inr [job_1_failed] \<and>
   retry_count ([job_1_failed] ! 0) = retry_count ([job_1_retried] ! 0) + 1 \<and>
   status ([job_1_failed] ! 0) = Failed \<and>
   fst (get_next_job 90000000 {}
          (exec_calls [(85000000, Complete_job 1 False None), (86000000, Cleanup_old_jobs 0)]
             [job_1_failed])) = []"
proof -
  have run: "complete_job 80000000 1 False (Some ''boom again'') [job_1_retried] = Inr [job_1_failed]"
    by (simp add: job_1_retried_def job_1_failed_def job_1_def complete_job_def
        fail_row_def int4pl_def update_job_queue_timestamp_def)
  have pre: "0 < length [job_1_retried]" "job_id ([job_1_retried] ! 0) = 1"
    "status ([job_1_retried] ! 0) = Processing" "distinct (map job_id [job_1_retried])"
    by (simp_all add: job_1_retried_def job_1_def)
  note t = complete_job_failure_transition[OF pre run]
  have failed: "status ([job_1_failed] ! 0) = Failed"
    by (simp add: job_1_failed_def)
  have later: "\<forall>c\<in>set [(85000000, Complete_job 1 False None), (86000000, Cleanup_old_jobs 0)].
      \<not> enqueues 1 c"
    by simp
  from t failed later
  have "\<forall>r\<in>set (fst (get_next_job 90000000 {}
          (exec_calls [(85000000, Complete_job 1 False None), (86000000, Cleanup_old_jobs 0)]
             [job_1_failed]))). job_id r \<noteq> 1"
    by blast
  moreover have "\<forall>r\<in>set (fst (get_next_job 90000000 {}
          (exec_calls [(85000000, Complete_job 1 False None), (86000000, Cleanup_old_jobs 0)]
             [job_1_failed]))). job_id r = 1"
    by (simp add: job_1_failed_def job_1_def complete_job_def fail_row_def int4pl_def
        update_job_queue_timestamp_def cleanup_old_jobs_def days_before_def timestamptz_pl_def
        MIN_TIMESTAMP_def END_TIMESTAMP_def expired_def get_next_job_def claimable_def)
  ultimately have "fst (get_next_job 90000000 {}
          (exec_calls [(85000000, Complete_job 1 False None), (86000000, Cleanup_old_jobs 0)]
             [job_1_failed])) = []"
    by (metis last_in_set)
  with run t failed show ?thesis by simp
qed

subsection \<open>The time of the retry (C2)\<close>

text \<open>
  C2, as the code has it. A job in status \<open>processing\<close> whose \<open>retry_count\<close> is not negative
  is completed with \<open>p_success = false\<close> at a time \<open>now\<close> that is not before its
  \<open>scheduled_at\<close> (a job is claimed at such a time only). When it is queued again, that is
  when its \<open>retry_count\<close> before the increment is less than \<open>max_retries\<close>, the new
  \<open>scheduled_at\<close> is \<open>now\<close> plus \<open>2 ^ n\<close> minutes for \<open>n\<close> the \<open>retry_count\<close> before the
  increment (one minute after the first failure, two after the second), which is strictly
  later than the \<open>scheduled_at\<close> before. Otherwise the job is \<open>failed\<close> and its
  \<open>scheduled_at\<close> stays.
\<close>

theorem complete_job_backoff:
  assumes "i < length tbl" and "job_id (tbl ! i) = p_job_id" and "status (tbl ! i) = Processing"
    and "0 \<le> retry_count (tbl ! i)" and "scheduled_at (tbl ! i) \<le> now"
    and "complete_job now p_job_id False msg tbl = Inr tbl'"
  shows "if retry_count (tbl ! i) < max_retries (tbl ! i)
         then status (tbl' ! i) = Pending \<and>
              scheduled_at (tbl' ! i) = now + 2 ^ nat (retry_count (tbl ! i)) * 60000000 \<and>
              scheduled_at (tbl ! i) < scheduled_at (tbl' ! i)
         else status (tbl' ! i) = Failed \<and> scheduled_at (tbl' ! i) = scheduled_at (tbl ! i)"
proof -
  from complete_job_fail_nth[OF assms(6) assms(1)] assms(2)
  have f: "fail_row now msg (tbl ! i) = Inr (tbl' ! i)" by simp
  show ?thesis
  proof (cases "retry_count (tbl ! i) < max_retries (tbl ! i)")
    case True
    have s: "scheduled_at (tbl' ! i) = now + 2 ^ nat (retry_count (tbl ! i)) * 60000000"
      using fail_row_backoff[OF f True assms(4)] .
    have "(0::int) < 2 ^ nat (retry_count (tbl ! i)) * 60000000" by simp
    with s assms(5) have "scheduled_at (tbl ! i) < scheduled_at (tbl' ! i)" by linarith
    with True s fail_row_Inr(2)[OF f] show ?thesis by simp
  next
    case False
    then show ?thesis using fail_row_Inr(2,9)[OF f] by simp
  qed
qed

text \<open>
  C2 as the specification has it fails: the first failure, which makes \<open>retry_count\<close> 1,
  schedules the retry one minute after \<open>now\<close>, not \<open>2 ^ 1\<close> minutes after it.
\<close>

theorem complete_job_backoff_counterexample:
  "complete_job 1000 2 False None [job_2] =
     Inr [job_2\<lparr>status := Pending, scheduled_at := 1000 + 60000000, started_at := None,
                retry_count := 1, updated_at := 1000\<rparr>] \<and>
   (1000 + 60000000 \<noteq> 1000 + 2 ^ 1 * (60000000 :: int))"
  by (simp add: job_2_def complete_job_def fail_row_def int4pl_def backoff_def timestamptz_pl_def
      MIN_TIMESTAMP_def END_TIMESTAMP_def update_job_queue_timestamp_def)

text \<open>
  The second failure schedules the retry two minutes later, after the time the job had;
  the failure after the third retry leaves the time and makes the job \<open>failed\<close>.
\<close>

theorem complete_job_backoff_witness:
  "complete_job 60003000 2 False None [job_2_retried] =
     Inr [job_2_retried\<lparr>status := Pending, scheduled_at := 60003000 + 2 * 60000000,
            started_at := None, retry_count := 2, updated_at := 60003000\<rparr>] \<and>
   scheduled_at ([job_2_retried] ! 0) < 60003000 + 2 * 60000000 \<and>
   complete_job 300001000 2 False None [job_2_exhausted] =
     Inr [job_2_exhausted\<lparr>status := Failed, started_at := None, retry_count := 4,
            updated_at := 300001000\<rparr>]"
proof -
  let ?r = "job_2_retried\<lparr>status := Pending, scheduled_at := 60003000 + 2 * 60000000,
            started_at := None, retry_count := 2, updated_at := 60003000\<rparr>"
  let ?e = "job_2_exhausted\<lparr>status := Failed, started_at := None, retry_count := 4,
            updated_at := 300001000\<rparr>"
  have run1: "complete_job 60003000 2 False None [job_2_retried] = Inr [?r]"
    by (simp add: job_2_retried_def job_2_def complete_job_def fail_row_def int4pl_def
        backoff_def timestamptz_pl_def MIN_TIMESTAMP_def END_TIMESTAMP_def
        update_job_queue_timestamp_def)
  have pre1: "0 < length [job_2_retried]" "job_id ([job_2_retried] ! 0) = 2"
    "status ([job_2_retried] ! 0) = Processing" "0 \<le> retry_count ([job_2_retried] ! 0)"
    "scheduled_at ([job_2_retried] ! 0) \<le> 60003000"
    by (simp_all add: job_2_retried_def job_2_def)
  have lt1: "retry_count ([job_2_retried] ! 0) < max_retries ([job_2_retried] ! 0)"
    by (simp add: job_2_retried_def job_2_def)
  from complete_job_backoff[OF pre1 run1] lt1
  have c1: "scheduled_at ([job_2_retried] ! 0) < scheduled_at ([?r] ! 0)"
    by simp
  have run2: "complete_job 300001000 2 False None [job_2_exhausted] = Inr [?e]"
    by (simp add: job_2_exhausted_def job_2_def complete_job_def fail_row_def int4pl_def
        update_job_queue_timestamp_def)
  have pre2: "0 < length [job_2_exhausted]" "job_id ([job_2_exhausted] ! 0) = 2"
    "status ([job_2_exhausted] ! 0) = Processing" "0 \<le> retry_count ([job_2_exhausted] ! 0)"
    "scheduled_at ([job_2_exhausted] ! 0) \<le> 300001000"
    by (simp_all add: job_2_exhausted_def job_2_def)
  have ge2: "\<not> retry_count ([job_2_exhausted] ! 0) < max_retries ([job_2_exhausted] ! 0)"
    by (simp add: job_2_exhausted_def job_2_def)
  from complete_job_backoff[OF pre2 run2] ge2
  have c2: "status ([?e] ! 0) = Failed" by simp
  from run1 c1 run2 c2 show ?thesis by simp
qed

subsection \<open>Completing a job that is completed or failed (C3)\<close>

text \<open>
  C3, as the code has it. \<open>complete_job\<close> does not read the status of the job and has no
  error for a job that is \<open>completed\<close> or \<open>failed\<close> already: on such a job the call
  returns what it returns on the same job in status \<open>processing\<close>, and it changes the job.
  With \<open>p_success = true\<close> the job becomes \<open>completed\<close> with \<open>completed_at = now\<close>; with
  \<open>p_success = false\<close> its \<open>retry_count\<close> grows by one, its \<open>error_message\<close> is replaced,
  its \<open>started_at\<close> is cleared, and it becomes \<open>pending\<close> or \<open>failed\<close> as a processing job
  does.
\<close>

theorem complete_job_on_terminal:
  assumes "i < length tbl" and "job_id (tbl ! i) = p_job_id"
    and "status (tbl ! i) = Completed \<or> status (tbl ! i) = Failed"
    and "complete_job now p_job_id p_success msg tbl = Inr tbl'"
  shows "complete_job now p_job_id p_success msg (tbl[i := (tbl ! i)\<lparr>status := Processing\<rparr>]) =
           Inr tbl' \<and>
         (if p_success
          then tbl' ! i = (tbl ! i)\<lparr>status := Completed, completed_at := Some now,
                                     updated_at := now\<rparr>
          else status (tbl' ! i) =
                 (if retry_count (tbl ! i) < max_retries (tbl ! i) then Pending else Failed) \<and>
               retry_count (tbl' ! i) = retry_count (tbl ! i) + 1 \<and>
               error_message (tbl' ! i) = msg \<and>
               started_at (tbl' ! i) = None \<and>
               updated_at (tbl' ! i) = now)"
proof -
  have same: "complete_job now p_job_id p_success msg (tbl[i := (tbl ! i)\<lparr>status := Processing\<rparr>]) =
      Inr tbl'"
    using complete_job_status[OF assms(1,2)] assms(4) by simp
  show ?thesis
  proof (cases p_success)
    case True
    with complete_job_success_nth[of now p_job_id msg tbl tbl' i] assms(1,2,4)
    have "tbl' ! i = succeed_row now (tbl ! i)" by simp
    then show ?thesis using same True
      by (simp add: succeed_row_def update_job_queue_timestamp_def)
  next
    case False
    with complete_job_fail_nth[of now p_job_id msg tbl tbl' i] assms(1,2,4)
    have f: "fail_row now msg (tbl ! i) = Inr (tbl' ! i)" by simp
    show ?thesis using same False fail_row_Inr(1,2,6,7,8)[OF f] by simp
  qed
qed

text \<open>
  C3 as the specification has it fails: completing the \<open>completed\<close> job 3 with
  \<open>p_success = false\<close> returns no error; the job is \<open>pending\<close> again with
  \<open>retry_count = 1\<close>.
\<close>

theorem complete_job_on_terminal_counterexample:
  "status job_3 = Completed \<and>
   complete_job 200 3 False (Some ''late'') [job_3] =
     Inr [job_3\<lparr>status := Pending, scheduled_at := 60000200, started_at := None,
                error_message := Some ''late'', retry_count := 1, updated_at := 200\<rparr>]"
  by (simp add: job_3_def complete_job_def fail_row_def int4pl_def backoff_def timestamptz_pl_def
      MIN_TIMESTAMP_def END_TIMESTAMP_def update_job_queue_timestamp_def)

text \<open>Completing the \<open>failed\<close> job 4 with \<open>p_success = true\<close> makes it \<open>completed\<close>.\<close>

theorem complete_job_on_terminal_witness:
  "status ([job_3, job_4] ! 1) = Failed \<and>
   complete_job 200 4 True None [job_3, job_4] =
     Inr [job_3, job_4\<lparr>status := Completed, completed_at := Some 200, updated_at := 200\<rparr>] \<and>
   complete_job 200 4 True None [job_3, job_4\<lparr>status := Processing\<rparr>] =
     Inr [job_3, job_4\<lparr>status := Completed, completed_at := Some 200, updated_at := 200\<rparr>]"
proof -
  let ?t = "[job_3, job_4\<lparr>status := Completed, completed_at := Some 200, updated_at := 200\<rparr>]"
  have run: "complete_job 200 4 True None [job_3, job_4] = Inr ?t"
    by (simp add: job_3_def job_4_def complete_job_def succeed_row_def
        update_job_queue_timestamp_def)
  have pre: "1 < length [job_3, job_4]" "job_id ([job_3, job_4] ! 1) = 4"
    "status ([job_3, job_4] ! 1) = Completed \<or> status ([job_3, job_4] ! 1) = Failed"
    by (simp_all add: job_4_def)
  from complete_job_on_terminal[OF pre run]
  have "complete_job 200 4 True None ([job_3, job_4][1 := ([job_3, job_4] ! 1)\<lparr>status := Processing\<rparr>]) =
      Inr ?t"
    by simp
  then have "complete_job 200 4 True None [job_3, job_4\<lparr>status := Processing\<rparr>] = Inr ?t"
    by simp
  with run pre show ?thesis by (simp add: job_4_def)
qed

subsection \<open>The job that is claimed next (C4)\<close>

text \<open>
  C4. The rows of the table have distinct \<open>id\<close>s, and no other transaction holds a lock.
  When some job is \<open>pending\<close> with \<open>scheduled_at \<le> now\<close>, \<open>get_next_job\<close> takes one of
  these jobs such that no other of them has a higher \<open>priority\<close>, nor the same \<open>priority\<close>
  and an earlier \<open>scheduled_at\<close>; it returns this job with status \<open>processing\<close> and
  \<open>started_at = now\<close> (and \<open>updated_at = now\<close>), and the table is the one before with this
  one row so replaced. When no job is \<open>pending\<close> with \<open>scheduled_at \<le> now\<close>, it returns
  no row, which is no error, and leaves the table.
\<close>

theorem get_next_job_selects:
  assumes "distinct (map job_id tbl)"
  shows "if \<exists>j\<in>set tbl. status j = Pending \<and> scheduled_at j \<le> now
         then \<exists>i<length tbl.
                status (tbl ! i) = Pending \<and> scheduled_at (tbl ! i) \<le> now \<and>
                (\<forall>k\<in>set tbl. status k = Pending \<and> scheduled_at k \<le> now \<longrightarrow>
                   priority k \<le> priority (tbl ! i) \<and>
                   (priority k = priority (tbl ! i) \<longrightarrow>
                      scheduled_at (tbl ! i) \<le> scheduled_at k)) \<and>
                get_next_job now {} tbl =
                  ([(tbl ! i)\<lparr>status := Processing, started_at := Some now, updated_at := now\<rparr>],
                   tbl[i := (tbl ! i)\<lparr>status := Processing, started_at := Some now,
                                        updated_at := now\<rparr>])
         else get_next_job now {} tbl = ([], tbl)"
proof (cases "\<exists>j\<in>set tbl. status j = Pending \<and> scheduled_at j \<le> now")
  case True
  then have "\<exists>j\<in>set tbl. claimable now {} j" by (simp add: claimable_def)
  from get_next_job_some[OF assms this] obtain i where
    i: "i < length tbl" "claimable now {} (tbl ! i)"
      "\<forall>k\<in>set tbl. claimable now {} k \<longrightarrow> \<not> sorts_before k (tbl ! i)"
      "get_next_job now {} tbl = ([claim_row now (tbl ! i)], tbl[i := claim_row now (tbl ! i)])"
    by blast
  have c: "claim_row now (tbl ! i) =
      (tbl ! i)\<lparr>status := Processing, started_at := Some now, updated_at := now\<rparr>"
    by (simp add: claim_row_def update_job_queue_timestamp_def)
  have "\<forall>k\<in>set tbl. status k = Pending \<and> scheduled_at k \<le> now \<longrightarrow>
           priority k \<le> priority (tbl ! i) \<and>
           (priority k = priority (tbl ! i) \<longrightarrow> scheduled_at (tbl ! i) \<le> scheduled_at k)"
    using i(3) by (auto simp: claimable_def sorts_before_def)
  with i c True show ?thesis by (auto simp: claimable_def)
next
  case False
  then have "\<not> (\<exists>j\<in>set tbl. claimable now {} j)" by (auto simp: claimable_def)
  from get_next_job_none[OF this] False show ?thesis by simp
qed

text \<open>
  Of four pending jobs, the one of priority 20 is not due at time 1000, and of the two due
  jobs of priority 10 the one scheduled earlier is claimed. At time 50 no job is due.
\<close>

theorem get_next_job_selects_witness:
  "get_next_job 1000 {} [job_5, job_6, job_7, job_8] =
     ([job_7\<lparr>status := Processing, started_at := Some 1000, updated_at := 1000\<rparr>],
      [job_5, job_6, job_7\<lparr>status := Processing, started_at := Some 1000, updated_at := 1000\<rparr>,
       job_8]) \<and>
   get_next_job 50 {} [job_5, job_6, job_7, job_8] = ([], [job_5, job_6, job_7, job_8])"
proof -
  let ?t = "[job_5, job_6, job_7, job_8]"
  have d: "distinct (map job_id ?t)"
    by (simp add: job_5_def job_6_def job_7_def job_8_def)
  have none: "\<not> (\<exists>j\<in>set ?t. status j = Pending \<and> scheduled_at j \<le> 50)"
    by (simp add: job_5_def job_6_def job_7_def job_8_def)
  from get_next_job_selects[OF d, of 50] none
  have a: "get_next_job 50 {} ?t = ([], ?t)" by simp
  have b: "get_next_job 1000 {} ?t =
      ([job_7\<lparr>status := Processing, started_at := Some 1000, updated_at := 1000\<rparr>],
       [job_5, job_6, job_7\<lparr>status := Processing, started_at := Some 1000, updated_at := 1000\<rparr>,
        job_8])"
    by (simp add: get_next_job_def claimable_def sorts_before_def claim_row_def
        update_job_queue_timestamp_def job_5_def job_6_def job_7_def job_8_def)
  from a b show ?thesis by simp
qed

subsection \<open>The accumulators of a key (C5)\<close>

text \<open>
  C5. A sequence of calls of \<open>increment_usage_metric\<close>, each of which succeeds, is run on
  a table. For a key \<open>(date, provider, service)\<close> that has no row in the table before, the
  table after has no row for the key when no call was for the key, and else one row, whose
  \<open>usage_count\<close>, \<open>tokens_used\<close> and \<open>estimated_cost_cents\<close> are the sums of the amounts of
  the calls for the key: the first call creates the row with its amounts, the later ones
  add theirs. For a key that has a row before, the sums are added to the accumulators the
  row had (a \<open>tokens_used\<close> that is \<open>NULL\<close> stays \<open>NULL\<close>).
\<close>

theorem increment_usage_metric_accumulates:
  assumes "increment_all cs tbl0 = Inr tbl"
  shows "map accumulators (filter (same_key d p s) tbl) =
     (if filter (same_key d p s) tbl0 = []
      then (if filter (on_key d p s) cs = [] then []
            else [(sum_list (map usage_delta (filter (on_key d p s) cs)),
                   Some (sum_list (map tokens_delta (filter (on_key d p s) cs))),
                   sum_list (map cost_delta (filter (on_key d p s) cs)))])
      else map (plus_deltas (sum_list (map usage_delta (filter (on_key d p s) cs)))
                  (sum_list (map tokens_delta (filter (on_key d p s) cs)))
                  (sum_list (map cost_delta (filter (on_key d p s) cs))))
             (map accumulators (filter (same_key d p s) tbl0)))"
  using assms
proof (induction cs arbitrary: tbl0)
  case Nil
  then show ?case by (simp add: plus_deltas_0)
next
  case (Cons call cs)
  obtain now new_id d' p' s' u t c where call: "call = Increment now new_id d' p' s' u t c"
    by (cases call)
  with Cons.prems obtain tbl1 where
    one: "increment_usage_metric now new_id d' p' s' u t c tbl0 = Inr tbl1"
    and rest: "increment_all cs tbl1 = Inr tbl"
    by (auto split: sum.splits)
  note step = increment_usage_metric_step[OF one, of d p s]
  note ih = Cons.IH[OF rest]
  let ?U = "sum_list (map usage_delta (filter (on_key d p s) cs))"
  let ?T = "sum_list (map tokens_delta (filter (on_key d p s) cs))"
  let ?C = "sum_list (map cost_delta (filter (on_key d p s) cs))"
  show ?case
  proof (cases "d' = d \<and> p' = p \<and> s' = s")
    case other: False
    then have f: "filter (on_key d p s) (call # cs) = filter (on_key d p s) cs"
      using call by auto
    have a: "map accumulators (filter (same_key d p s) tbl1) =
        map accumulators (filter (same_key d p s) tbl0)"
      using step unfolding if_not_P[OF other] .
    then have e: "filter (same_key d p s) tbl1 = [] \<longleftrightarrow> filter (same_key d p s) tbl0 = []"
      by (metis map_is_Nil_conv)
    show ?thesis unfolding f using ih a e by simp
  next
    case same: True
    then have f: "filter (on_key d p s) (call # cs) = call # filter (on_key d p s) cs"
      using call by auto
    have sums: "sum_list (map usage_delta (call # filter (on_key d p s) cs)) = u + ?U"
      "sum_list (map tokens_delta (call # filter (on_key d p s) cs)) = t + ?T"
      "sum_list (map cost_delta (call # filter (on_key d p s) cs)) = c + ?C"
      using call by simp_all
    show ?thesis
    proof (cases "filter (same_key d p s) tbl0 = []")
      case True
      with step same have a: "map accumulators (filter (same_key d p s) tbl1) = [(u, Some t, c)]"
        by simp
      then have ne: "filter (same_key d p s) tbl1 \<noteq> []" by auto
      from ih ne a have "map accumulators (filter (same_key d p s) tbl) =
          [plus_deltas ?U ?T ?C (u, Some t, c)]"
        by simp
      then show ?thesis unfolding f sums using True by (simp add: plus_deltas_def)
    next
      case False
      with step same have a: "map accumulators (filter (same_key d p s) tbl1) =
          map (plus_deltas u t c) (map accumulators (filter (same_key d p s) tbl0))"
        by simp
      with False have ne: "filter (same_key d p s) tbl1 \<noteq> []"
        by (metis map_is_Nil_conv)
      from ih ne a have "map accumulators (filter (same_key d p s) tbl) =
          map (plus_deltas ?U ?T ?C)
            (map (plus_deltas u t c) (map accumulators (filter (same_key d p s) tbl0)))"
        by simp
      then show ?thesis unfolding f sums using False by (simp only: map_plus_deltas if_False)
    qed
  qed
qed

text \<open>
  Three calls for one key and one for another, on the empty table: the row of the first
  key holds the sums of the three.
\<close>

theorem increment_usage_metric_accumulates_witness:
  "increment_all increments_1 [] = Inr metrics_1 \<and>
   map accumulators (filter (same_key 9800 ''openai'' ''chat'') metrics_1) =
     [(1 + 1 + 2, Some (100 + 250 + 0), 3 + 7 + 0)]"
proof -
  have run: "increment_all increments_1 [] = Inr metrics_1"
    by (simp add: increments_1_def metrics_1_def increment_usage_metric_def same_key_def
        proposed_row_def accumulate_def int4pl_def)
  have calls: "filter (on_key 9800 ''openai'' ''chat'') increments_1 =
      [Increment 10 1 9800 ''openai'' ''chat'' 1 100 3,
       Increment 11 2 9800 ''openai'' ''chat'' 1 250 7,
       Increment 13 4 9800 ''openai'' ''chat'' 2 0 0]"
    by (simp add: increments_1_def)
  from increment_usage_metric_accumulates[OF run, of 9800 "''openai''" "''chat''"]
  have "map accumulators (filter (same_key 9800 ''openai'' ''chat'') metrics_1) =
      [(1 + 1 + 2, Some (100 + 250 + 0), 3 + 7 + 0)]"
    unfolding calls by simp
  with run show ?thesis by simp
qed

subsection \<open>Claims made one after the other (C6)\<close>

text \<open>
  C6 speaks of concurrent calls: that no two of them return the same job rests on the row
  locks of PostgreSQL, which are no part of the function bodies. What the body of
  \<open>get_next_job\<close> gives is stated here: it returns no row that another transaction holds
  locked, and calls made one after the other return jobs with distinct \<open>id\<close>s, each of
  them \<open>pending\<close> in the table at the start, so that they are no more than the \<open>pending\<close>
  jobs there.
\<close>

lemma get_next_job_skips_locked:
  assumes "r \<in> set (fst (get_next_job now locked tbl))"
  shows "job_id r \<notin> locked"
proof (cases "limit_1 (filter (claimable now locked) tbl)")
  case None
  with assms show ?thesis by (simp add: get_next_job_def)
next
  case (Some s)
  from limit_1_in[OF Some] have "job_id s \<notin> locked" by (simp add: claimable_def)
  with assms Some show ?thesis by (auto simp: get_next_job_def claim_row_fields)
qed

lemma get_next_job_serial:
  assumes "distinct (map job_id tbl)"
  shows "\<exists>ret tbl'. get_next_job now {} tbl = (ret, tbl') \<and> distinct (map job_id tbl') \<and>
           length ret \<le> 1 \<and>
           (\<forall>r\<in>set ret. \<exists>j\<in>set tbl. status j = Pending \<and> job_id j = job_id r) \<and>
           (\<forall>j'\<in>set tbl'. status j' = Pending \<longrightarrow>
              j' \<in> set tbl \<and> job_id j' \<notin> job_id ` set ret) \<and>
           length (filter (\<lambda>j. status j = Pending) tbl') + length ret \<le>
             length (filter (\<lambda>j. status j = Pending) tbl)"
proof (cases "\<exists>j\<in>set tbl. claimable now {} j")
  case False
  from get_next_job_none[OF False] assms show ?thesis by simp
next
  case True
  from get_next_job_some[OF assms True] obtain i where
    i: "i < length tbl" "claimable now {} (tbl ! i)"
      "get_next_job now {} tbl = ([claim_row now (tbl ! i)], tbl[i := claim_row now (tbl ! i)])"
    by blast
  let ?c = "claim_row now (tbl ! i)"
  have ids: "map job_id (tbl[i := ?c]) = map job_id tbl"
    using i(1) by (simp add: map_update claim_row_fields list_update_same_conv)
  have d: "distinct (map job_id (tbl[i := ?c]))" using assms ids by simp
  have p: "status (tbl ! i) = Pending" using i(2) by (simp add: claimable_def)
  have src: "\<forall>r\<in>set [?c]. \<exists>j\<in>set tbl. status j = Pending \<and> job_id j = job_id r"
    using i(1) p by (auto simp: claim_row_fields intro!: bexI[of _ "tbl ! i"])
  have pend: "j' \<in> set tbl \<and> job_id j' \<notin> job_id ` set [?c]"
    if "j' \<in> set (tbl[i := ?c])" "status j' = Pending" for j'
  proof -
    from that(1) obtain k where k: "k < length tbl" "tbl[i := ?c] ! k = j'"
      by (auto simp: in_set_conv_nth)
    have "k \<noteq> i" using k that(2) i(1) by (auto simp: claim_row_fields)
    with k have j': "j' = tbl ! k" by simp
    have "job_id (tbl ! k) \<noteq> job_id (tbl ! i)"
      using assms k(1) i(1) \<open>k \<noteq> i\<close> by (metis length_map nth_eq_iff_index_eq nth_map)
    with j' k(1) show ?thesis by (simp add: claim_row_fields)
  qed
  have cnt: "length (filter (\<lambda>j. status j = Pending) (tbl[i := ?c])) + length [?c] \<le>
      length (filter (\<lambda>j. status j = Pending) tbl)"
  proof -
    have split: "tbl = take i tbl @ tbl ! i # drop (Suc i) tbl"
      using i(1) by (simp add: id_take_nth_drop)
    have upd: "tbl[i := ?c] = take i tbl @ ?c # drop (Suc i) tbl"
      using i(1) by (simp add: upd_conv_take_nth_drop)
    have "length (filter (\<lambda>j. status j = Pending) tbl) =
        length (filter (\<lambda>j. status j = Pending) (take i tbl)) + 1 +
        length (filter (\<lambda>j. status j = Pending) (drop (Suc i) tbl))"
      by (subst split) (simp add: p)
    moreover have "length (filter (\<lambda>j. status j = Pending) (tbl[i := ?c])) =
        length (filter (\<lambda>j. status j = Pending) (take i tbl)) +
        length (filter (\<lambda>j. status j = Pending) (drop (Suc i) tbl))"
      by (subst upd) (simp add: claim_row_fields)
    ultimately show ?thesis by simp
  qed
  from i(3) d src pend cnt show ?thesis by auto
qed

lemma claim_serially_distinct:
  assumes "distinct (map job_id tbl)" and "claim_serially nows tbl = (rets, tbl')"
  shows "distinct (map job_id rets) \<and>
         (\<forall>r\<in>set rets. \<exists>j\<in>set tbl. status j = Pending \<and> job_id j = job_id r) \<and>
         length rets \<le> length (filter (\<lambda>j. status j = Pending) tbl)"
  using assms
proof (induction nows arbitrary: tbl rets tbl')
  case Nil
  then show ?case by simp
next
  case (Cons now nows)
  from get_next_job_serial[OF Cons.prems(1), of now] obtain ret tbl1 where
    g: "get_next_job now {} tbl = (ret, tbl1)" "distinct (map job_id tbl1)" "length ret \<le> 1"
      "\<forall>r\<in>set ret. \<exists>j\<in>set tbl. status j = Pending \<and> job_id j = job_id r"
      "\<forall>j'\<in>set tbl1. status j' = Pending \<longrightarrow> j' \<in> set tbl \<and> job_id j' \<notin> job_id ` set ret"
      "length (filter (\<lambda>j. status j = Pending) tbl1) + length ret \<le>
         length (filter (\<lambda>j. status j = Pending) tbl)"
    by blast
  obtain rets1 tbl2 where r: "claim_serially nows tbl1 = (rets1, tbl2)"
    by (cases "claim_serially nows tbl1")
  with Cons.prems(2) g(1) have eq: "rets = ret @ rets1" by simp
  from Cons.IH[OF g(2) r] have ih: "distinct (map job_id rets1)"
    "\<forall>r\<in>set rets1. \<exists>j\<in>set tbl1. status j = Pending \<and> job_id j = job_id r"
    "length rets1 \<le> length (filter (\<lambda>j. status j = Pending) tbl1)"
    by auto
  have d0: "distinct (map job_id ret)" using g(3) by (cases ret) auto
  have disj: "job_id ` set ret \<inter> job_id ` set rets1 = {}"
  proof (rule ccontr)
    assume "job_id ` set ret \<inter> job_id ` set rets1 \<noteq> {}"
    then obtain x where "x \<in> job_id ` set ret" "x \<in> job_id ` set rets1" by blast
    then obtain r1 where r1: "r1 \<in> set rets1" "job_id r1 \<in> job_id ` set ret"
      by (metis imageE)
    from ih(2) r1(1) obtain j where "j \<in> set tbl1" "status j = Pending" "job_id j = job_id r1"
      by blast
    with g(5) r1(2) show False by auto
  qed
  have a: "distinct (map job_id rets)" using eq d0 ih(1) disj by simp
  have b: "\<forall>r\<in>set rets. \<exists>j\<in>set tbl. status j = Pending \<and> job_id j = job_id r"
  proof
    fix x assume "x \<in> set rets"
    with eq consider "x \<in> set ret" | "x \<in> set rets1" by auto
    then show "\<exists>j\<in>set tbl. status j = Pending \<and> job_id j = job_id x"
    proof cases
      case 1
      with g(4) show ?thesis by blast
    next
      case 2
      with ih(2) obtain j where "j \<in> set tbl1" "status j = Pending" "job_id j = job_id x"
        by blast
      with g(5) show ?thesis by blast
    qed
  qed
  have c: "length rets \<le> length (filter (\<lambda>j. status j = Pending) tbl)"
    using eq ih(3) g(6) by simp
  from a b c show ?case by blast
qed

subsection \<open>The jobs a cleanup deletes (C7)\<close>

text \<open>
  C7. \<open>cleanup_old_jobs\<close> with \<open>p_days_old = d\<close> at the time \<open>now\<close> keeps the rows in their
  order and deletes exactly those whose status is \<open>completed\<close> or \<open>failed\<close> and whose
  \<open>completed_at\<close> is set and more than \<open>d\<close> days before \<open>now\<close>; it returns their number; a
  \<open>pending\<close> or \<open>processing\<close> job is never deleted, whatever its age.
\<close>

theorem cleanup_old_jobs_deletes:
  assumes "cleanup_old_jobs now p_days_old tbl = Inr (v_deleted_count, tbl')"
  shows "tbl' = filter (\<lambda>j. \<not> ((status j = Completed \<or> status j = Failed) \<and>
                    (\<exists>c. completed_at j = Some c \<and> p_days_old * 86400000000 < now - c))) tbl \<and>
         v_deleted_count = int (length tbl) - int (length tbl') \<and>
         (\<forall>j\<in>set tbl. status j = Pending \<or> status j = Processing \<longrightarrow> j \<in> set tbl')"
proof -
  note r = cleanup_old_jobs_Inr[OF assms]
  have a: "tbl' = filter (\<lambda>j. \<not> ((status j = Completed \<or> status j = Failed) \<and>
      (\<exists>c. completed_at j = Some c \<and> p_days_old * 86400000000 < now - c))) tbl"
    using r(1) by (simp add: expired_iff)
  have "length (filter (expired (now - p_days_old * 86400000000)) tbl) + length tbl' = length tbl"
    using r(1) sum_length_filter_compl[of "expired (now - p_days_old * 86400000000)" tbl] by simp
  with r(2) have b: "v_deleted_count = int (length tbl) - int (length tbl')" by linarith
  have c: "\<forall>j\<in>set tbl. status j = Pending \<or> status j = Processing \<longrightarrow> j \<in> set tbl'"
    unfolding a by auto
  from a b c show ?thesis by blast
qed

text \<open>
  Ten days after the epoch, a cleanup of seven days deletes the job completed in the first
  second, and keeps the old \<open>pending\<close> and \<open>processing\<close> jobs, the job completed two days
  ago and the \<open>failed\<close> job with no \<open>completed_at\<close>.
\<close>

theorem cleanup_old_jobs_deletes_witness:
  "cleanup_old_jobs 864000000000 7 [job_9, job_10, job_11, job_12, job_13] =
     Inr (1, [job_9, job_10, job_12, job_13]) \<and>
   status job_11 = Completed \<and> completed_at job_11 = Some 2000 \<and>
   7 * 86400000000 < 864000000000 - (2000 :: int) \<and>
   (1 :: int) = int (length [job_9, job_10, job_11, job_12, job_13]) -
                int (length [job_9, job_10, job_12, job_13])"
proof -
  have run: "cleanup_old_jobs 864000000000 7 [job_9, job_10, job_11, job_12, job_13] =
      Inr (1, [job_9, job_10, job_12, job_13])"
    by (simp add: cleanup_old_jobs_def days_before_def timestamptz_pl_def MIN_TIMESTAMP_def
        END_TIMESTAMP_def expired_def job_9_def job_10_def job_11_def job_12_def job_13_def)
  from cleanup_old_jobs_deletes[OF run]
  have "(1 :: int) = int (length [job_9, job_10, job_11, job_12, job_13]) -
      int (length [job_9, job_10, job_12, job_13])"
    by blast
  with run show ?thesis by (simp add: job_11_def)
qed

subsection \<open>The timestamps of a processing job (C8)\<close>

text \<open>
  The \<open>id\<close>s stay distinct, and the two invariants are kept by every call, the second by
  every call that is not a \<open>complete_job\<close> with \<open>p_success = false\<close> for a \<open>completed\<close> job.
\<close>

lemma distinct_exec_call:
  assumes "distinct (map job_id tbl)"
  shows "distinct (map job_id (exec_call c tbl))"
proof (cases c)
  case (Pair now k)
  show ?thesis
  proof (cases k)
    case (Enqueue_job new_id t p pr s)
    with Pair assms show ?thesis
      by (auto simp: enqueue_job_def list_ex_iff split: if_splits)
  next
    case Get_next_job
    have "map job_id (snd (get_next_job now {} tbl)) = map job_id tbl"
      by (auto simp: get_next_job_def claim_row_fields split: option.splits)
    with Pair Get_next_job assms show ?thesis by simp
  next
    case (Complete_job jid ok msg)
    show ?thesis
    proof (cases "complete_job now jid ok msg tbl")
      case (Inl e)
      with Pair Complete_job assms show ?thesis by simp
    next
      case (Inr tbl')
      have "map job_id tbl' = map job_id tbl"
      proof (cases ok)
        case True
        with Inr show ?thesis by (auto simp: complete_job_def succeed_row_fields)
      next
        case False
        with Inr have u: "update_where (\<lambda>j. job_id j = jid) (fail_row now msg) tbl = Inr tbl'"
          by (simp add: complete_job_def)
        show ?thesis
        proof (rule nth_equalityI)
          show "length (map job_id tbl') = length (map job_id tbl)"
            using update_where_Inr[OF u] by simp
        next
          fix i assume "i < length (map job_id tbl')"
          then have i: "i < length tbl" "i < length tbl'" using update_where_Inr[OF u] by simp_all
          with update_where_Inr[OF u]
          have "if job_id (tbl ! i) = jid then fail_row now msg (tbl ! i) = Inr (tbl' ! i)
                else tbl' ! i = tbl ! i"
            by blast
          then have "job_id (tbl' ! i) = job_id (tbl ! i)"
            using fail_row_Inr(4) by (auto split: if_splits)
          with i show "map job_id tbl' ! i = map job_id tbl ! i" by simp
        qed
      qed
      with Pair Complete_job Inr assms show ?thesis by simp
    qed
  next
    case (Cleanup_old_jobs d)
    with Pair assms show ?thesis
      by (auto simp: cleanup_old_jobs_def Let_def distinct_map_filter split: sum.splits if_splits)
  qed
qed

lemma started_exec_call:
  assumes "started_when_processing tbl" and "distinct (map job_id tbl)"
  shows "started_when_processing (exec_call c tbl)"
proof (cases c)
  case (Pair now k)
  show ?thesis
  proof (cases k)
    case (Enqueue_job new_id t p pr s)
    with Pair assms show ?thesis
      by (auto simp: enqueue_job_def started_when_processing_def split: if_splits)
  next
    case Get_next_job
    have "\<forall>j'\<in>set (snd (get_next_job now {} tbl)). status j' = Processing \<longrightarrow> started_at j' \<noteq> None"
    proof (intro ballI impI)
      fix j' assume "j' \<in> set (snd (get_next_job now {} tbl))" "status j' = Processing"
      from get_next_job_set[OF assms(2) this(1)] this(2) assms(1) show "started_at j' \<noteq> None"
        by (auto simp: started_when_processing_def claim_row_fields)
    qed
    with Pair Get_next_job show ?thesis by (simp add: started_when_processing_def)
  next
    case (Complete_job jid ok msg)
    show ?thesis
    proof (cases "complete_job now jid ok msg tbl")
      case (Inl e)
      with Pair Complete_job assms show ?thesis by simp
    next
      case (Inr tbl')
      have "\<forall>j'\<in>set tbl'. status j' = Processing \<longrightarrow> started_at j' \<noteq> None"
      proof (intro ballI impI)
        fix j' assume j': "j' \<in> set tbl'" "status j' = Processing"
        from complete_job_set[OF Inr j'(1)] obtain j where j: "j \<in> set tbl"
          "if job_id j = jid
           then (if ok then j' = succeed_row now j else fail_row now msg j = Inr j')
           else j' = j"
          by blast
        show "started_at j' \<noteq> None"
        proof (cases "job_id j = jid")
          case True
          with j(2) j'(2) show ?thesis
            using fail_row_Inr(2)[of now msg j j'] by (auto simp: succeed_row_fields split: if_splits)
        next
          case False
          with j j'(2) assms(1) show ?thesis by (auto simp: started_when_processing_def)
        qed
      qed
      with Pair Complete_job Inr show ?thesis by (simp add: started_when_processing_def)
    qed
  next
    case (Cleanup_old_jobs d)
    with Pair assms(1) show ?thesis
      by (auto simp: cleanup_old_jobs_def started_when_processing_def Let_def
          split: sum.splits if_splits)
  qed
qed

lemma stamped_exec_call:
  assumes "completed_when_stamped tbl" and "distinct (map job_id tbl)"
    and "\<not> fails_completed c tbl"
  shows "completed_when_stamped (exec_call c tbl)"
proof (cases c)
  case (Pair now k)
  show ?thesis
  proof (cases k)
    case (Enqueue_job new_id t p pr s)
    with Pair assms(1) show ?thesis
      by (auto simp: enqueue_job_def completed_when_stamped_def split: if_splits)
  next
    case Get_next_job
    have "\<forall>j'\<in>set (snd (get_next_job now {} tbl)). completed_at j' \<noteq> None \<longrightarrow> status j' = Completed"
    proof (intro ballI impI)
      fix j' assume j': "j' \<in> set (snd (get_next_job now {} tbl))" "completed_at j' \<noteq> None"
      from get_next_job_set[OF assms(2) j'(1)] j'(2) assms(1) show "status j' = Completed"
        by (auto simp: completed_when_stamped_def claim_row_fields)
    qed
    with Pair Get_next_job show ?thesis by (simp add: completed_when_stamped_def)
  next
    case (Complete_job jid ok msg)
    show ?thesis
    proof (cases "complete_job now jid ok msg tbl")
      case (Inl e)
      with Pair Complete_job assms show ?thesis by simp
    next
      case (Inr tbl')
      have "\<forall>j'\<in>set tbl'. completed_at j' \<noteq> None \<longrightarrow> status j' = Completed"
      proof (intro ballI impI)
        fix j' assume j': "j' \<in> set tbl'" "completed_at j' \<noteq> None"
        from complete_job_set[OF Inr j'(1)] obtain j where j: "j \<in> set tbl"
          "if job_id j = jid
           then (if ok then j' = succeed_row now j else fail_row now msg j = Inr j')
           else j' = j"
          by blast
        show "status j' = Completed"
        proof (cases "job_id j = jid")
          case False
          with j j'(2) assms(1) show ?thesis by (auto simp: completed_when_stamped_def)
        next
          case True
          show ?thesis
          proof (cases ok)
            case True
            with j(2) \<open>job_id j = jid\<close> show ?thesis by (simp add: succeed_row_fields)
          next
            case False
            with j(2) \<open>job_id j = jid\<close> have f: "fail_row now msg j = Inr j'" by simp
            from assms(3) Pair Complete_job False j(1) \<open>job_id j = jid\<close>
            have "status j \<noteq> Completed" by (auto simp: list_ex_iff)
            with assms(1) j(1) have "completed_at j = None"
              by (auto simp: completed_when_stamped_def)
            with fail_row_Inr(5)[OF f] j'(2) show ?thesis by simp
          qed
        qed
      qed
      with Pair Complete_job Inr show ?thesis by (simp add: completed_when_stamped_def)
    qed
  next
    case (Cleanup_old_jobs d)
    with Pair assms(1) show ?thesis
      by (auto simp: cleanup_old_jobs_def completed_when_stamped_def Let_def
          split: sum.splits if_splits)
  qed
qed

lemma distinct_exec_calls:
  "distinct (map job_id tbl) \<Longrightarrow> distinct (map job_id (exec_calls cs tbl))"
  by (induction cs arbitrary: tbl) (simp_all add: distinct_exec_call)

lemma started_exec_calls:
  "started_when_processing tbl \<Longrightarrow> distinct (map job_id tbl) \<Longrightarrow>
     started_when_processing (exec_calls cs tbl)"
  by (induction cs arbitrary: tbl) (simp_all add: started_exec_call distinct_exec_call)

lemma stamped_exec_calls:
  "completed_when_stamped tbl \<Longrightarrow> distinct (map job_id tbl) \<Longrightarrow>
     never_fails_completed cs tbl \<Longrightarrow> completed_when_stamped (exec_calls cs tbl)"
  by (induction cs arbitrary: tbl) (simp_all add: stamped_exec_call distinct_exec_call)

text \<open>
  C8, as the code has it. In every state reached from the empty queue by calls of
  \<open>enqueue_job\<close>, \<open>get_next_job\<close>, \<open>complete_job\<close> and \<open>cleanup_old_jobs\<close>, every job in
  status \<open>processing\<close> has its \<open>started_at\<close> set; its \<open>completed_at\<close> is \<open>NULL\<close> as well when
  no call on the way was a \<open>complete_job\<close> with \<open>p_success = false\<close> for a job that was
  \<open>completed\<close>.
\<close>

theorem processing_started_not_completed:
  assumes "j \<in> set (exec_calls cs [])" and "status j = Processing"
  shows "started_at j \<noteq> None \<and> (never_fails_completed cs [] \<longrightarrow> completed_at j = None)"
proof -
  have "started_when_processing (exec_calls cs [])"
    by (rule started_exec_calls) (simp_all add: started_when_processing_def)
  with assms have a: "started_at j \<noteq> None" by (auto simp: started_when_processing_def)
  have "completed_at j = None" if "never_fails_completed cs []"
  proof -
    have "completed_when_stamped (exec_calls cs [])"
      using that by (intro stamped_exec_calls) (simp_all add: completed_when_stamped_def)
    with assms show ?thesis by (auto simp: completed_when_stamped_def)
  qed
  with a show ?thesis by blast
qed

text \<open>
  C8 as the specification has it fails: a job that is completed with success and then with
  failure is \<open>pending\<close> again and keeps its \<open>completed_at\<close>; claimed again, it is
  \<open>processing\<close> with \<open>completed_at\<close> set.
\<close>

theorem processing_started_not_completed_counterexample:
  "exec_calls calls_reopen [] =
     [\<lparr>job_id = 1, job_type = ''report'', payload = ''{}'', status = Processing,
       priority = 5, scheduled_at = 60000030, started_at = Some 70000000,
       completed_at = Some 20, error_message = Some ''late'', retry_count = 1,
       max_retries = 3, created_at = 0, updated_at = 70000000\<rparr>]"
  by (simp add: calls_reopen_def enqueue_job_def get_next_job_def claimable_def claim_row_def
      complete_job_def succeed_row_def fail_row_def int4pl_def backoff_def timestamptz_pl_def
      MIN_TIMESTAMP_def END_TIMESTAMP_def update_job_queue_timestamp_def)

text \<open>A job that fails once and is claimed again has no \<open>completed_at\<close>.\<close>

theorem processing_started_not_completed_witness:
  "exec_calls calls_retry [] =
     [\<lparr>job_id = 1, job_type = ''report'', payload = ''{}'', status = Processing,
       priority = 5, scheduled_at = 60000030, started_at = Some 70000000,
       completed_at = None, error_message = Some ''boom'', retry_count = 1,
       max_retries = 3, created_at = 0, updated_at = 70000000\<rparr>] \<and>
   never_fails_completed calls_retry [] \<and>
   started_at (hd (exec_calls calls_retry [])) \<noteq> None \<and>
   completed_at (hd (exec_calls calls_retry [])) = None"
proof -
  let ?j = "\<lparr>job_id = 1, job_type = ''report'', payload = ''{}'', status = Processing,
       priority = 5, scheduled_at = 60000030, started_at = Some 70000000,
       completed_at = None, error_message = Some ''boom'', retry_count = 1,
       max_retries = 3, created_at = 0, updated_at = 70000000\<rparr>"
  have run: "exec_calls calls_retry [] = [?j]"
    by (simp add: calls_retry_def enqueue_job_def get_next_job_def claimable_def claim_row_def
        complete_job_def fail_row_def int4pl_def backoff_def timestamptz_pl_def
        MIN_TIMESTAMP_def END_TIMESTAMP_def update_job_queue_timestamp_def)
  have ok: "never_fails_completed calls_retry []"
    by (simp add: calls_retry_def enqueue_job_def get_next_job_def claimable_def claim_row_def
        update_job_queue_timestamp_def)
  have mem: "?j \<in> set (exec_calls calls_retry [])" using run by simp
  have st: "status ?j = Processing" by simp
  from processing_started_not_completed[OF mem st] ok
  have "started_at ?j \<noteq> None \<and> completed_at ?j = None" by blast
  with run ok show ?thesis by simp
qed

subsection \<open>Accumulators do not decrease under amounts that are not negative (C9)\<close>

text \<open>
  C9, as the code has it. A call of \<open>increment_usage_metric\<close> whose three amounts are not
  negative leaves every row of the table with a \<open>usage_count\<close>, a \<open>tokens_used\<close> and an
  \<open>estimated_cost_cents\<close> that are greater than or equal to the ones before (a
  \<open>tokens_used\<close> that is \<open>NULL\<close> stays \<open>NULL\<close>). The function takes any \<open>integer\<close>; nothing
  keeps an amount from being negative.
\<close>

theorem increment_usage_metric_monotone:
  assumes "0 \<le> p_usage_count" and "0 \<le> p_tokens_used" and "0 \<le> p_cost_cents"
    and "increment_usage_metric now new_id p_date p_provider p_service
           p_usage_count p_tokens_used p_cost_cents tbl = Inr tbl'"
    and "i < length tbl"
  shows "date (tbl' ! i) = date (tbl ! i) \<and> provider (tbl' ! i) = provider (tbl ! i) \<and>
         service (tbl' ! i) = service (tbl ! i) \<and>
         usage_count (tbl ! i) \<le> usage_count (tbl' ! i) \<and>
         estimated_cost_cents (tbl ! i) \<le> estimated_cost_cents (tbl' ! i) \<and>
         (case tokens_used (tbl ! i) of
            None \<Rightarrow> tokens_used (tbl' ! i) = None
          | Some a \<Rightarrow> (\<exists>b. tokens_used (tbl' ! i) = Some b \<and> a \<le> b))"
proof (cases "list_ex (same_key p_date p_provider p_service) tbl")
  case True
  with assms(4) have "update_where (same_key p_date p_provider p_service)
      (accumulate now p_usage_count p_tokens_used p_cost_cents) tbl = Inr tbl'"
    by (simp add: increment_usage_metric_def)
  from update_where_Inr[OF this] assms(5)
  have row: "if same_key p_date p_provider p_service (tbl ! i)
      then accumulate now p_usage_count p_tokens_used p_cost_cents (tbl ! i) = Inr (tbl' ! i)
      else tbl' ! i = tbl ! i"
    by blast
  show ?thesis
  proof (cases "same_key p_date p_provider p_service (tbl ! i)")
    case True
    with row have a: "accumulate now p_usage_count p_tokens_used p_cost_cents (tbl ! i) =
        Inr (tbl' ! i)"
      by simp
    show ?thesis using accumulate_fields[OF a] assms(1,2,3)
      by (cases "tokens_used (tbl ! i)") simp_all
  next
    case False
    with row have "tbl' ! i = tbl ! i" by simp
    then show ?thesis by (cases "tokens_used (tbl ! i)") simp_all
  qed
next
  case False
  with assms(4) have "tbl' = tbl @ [proposed_row now new_id p_date p_provider p_service
      p_usage_count p_tokens_used p_cost_cents]"
    by (simp add: increment_usage_metric_def split: if_splits)
  with assms(5) have "tbl' ! i = tbl ! i" by (simp add: nth_append)
  then show ?thesis by (cases "tokens_used (tbl ! i)") simp_all
qed

text \<open>
  C9 as the specification has it fails: a call with the amounts \<open>-3\<close>, \<open>-50\<close> and \<open>-1\<close> takes
  the accumulators of the row from 4, 350 and 10 down to 1, 300 and 9.
\<close>

theorem increment_usage_metric_monotone_counterexample:
  "increment_usage_metric 20 9 9800 ''openai'' ''chat'' (- 3) (- 50) (- 1) metrics_1 =
     Inr [\<lparr>metric_id = 1, date = 9800, provider = ''openai'', service = ''chat'',
           usage_count = 1, tokens_used = Some 300, estimated_cost_cents = 9,
           metadata = ''{}'', metric_created_at = 10, metric_updated_at = 20\<rparr>,
          metrics_1 ! 1] \<and>
   usage_count (metrics_1 ! 0) = 4 \<and> tokens_used (metrics_1 ! 0) = Some 350 \<and>
   estimated_cost_cents (metrics_1 ! 0) = 10"
  by (simp add: metrics_1_def increment_usage_metric_def same_key_def accumulate_def int4pl_def)

text \<open>A call with the amounts 1, 120 and 4 takes them up to 5, 470 and 14.\<close>

theorem increment_usage_metric_monotone_witness:
  "increment_usage_metric 20 9 9800 ''openai'' ''chat'' 1 120 4 metrics_1 =
     Inr [\<lparr>metric_id = 1, date = 9800, provider = ''openai'', service = ''chat'',
           usage_count = 5, tokens_used = Some 470, estimated_cost_cents = 14,
           metadata = ''{}'', metric_created_at = 10, metric_updated_at = 20\<rparr>,
          metrics_1 ! 1] \<and>
   usage_count (metrics_1 ! 0) \<le> 5 \<and> estimated_cost_cents (metrics_1 ! 0) \<le> 14 \<and>
   tokens_used (metrics_1 ! 0) = Some 350"
proof -
  let ?t = "[\<lparr>metric_id = 1, date = 9800, provider = ''openai'', service = ''chat'',
           usage_count = 5, tokens_used = Some 470, estimated_cost_cents = 14,
           metadata = ''{}'', metric_created_at = 10, metric_updated_at = 20\<rparr>,
          metrics_1 ! 1]"
  have run: "increment_usage_metric 20 9 9800 ''openai'' ''chat'' 1 120 4 metrics_1 = Inr ?t"
    by (simp add: metrics_1_def increment_usage_metric_def same_key_def accumulate_def int4pl_def)
  have pre: "(0::int) \<le> 1" "(0::int) \<le> 120" "(0::int) \<le> 4" by simp_all
  have i: "0 < length metrics_1" by (simp add: metrics_1_def)
  from increment_usage_metric_monotone[OF pre run i]
  have "usage_count (metrics_1 ! 0) \<le> usage_count (?t ! 0) \<and>
        estimated_cost_cents (metrics_1 ! 0) \<le> estimated_cost_cents (?t ! 0)"
    by simp
  moreover have "tokens_used (metrics_1 ! 0) = Some 350" by (simp add: metrics_1_def)
  ultimately show ?thesis using run by simp
qed

subsection \<open>A failure leaves \<open>completed_at\<close> (C10)\<close>

text \<open>
  C10, as the code has it. \<open>complete_job\<close> with \<open>p_success = false\<close> leaves the
  \<open>completed_at\<close> of the job as it was, and its \<open>scheduled_at\<close> too when the job becomes
  \<open>failed\<close>. So a job whose \<open>completed_at\<close> was \<open>NULL\<close> before the call keeps it \<open>NULL\<close>, and
  no \<open>cleanup_old_jobs\<close>, at any time and for any number of days, deletes it.
\<close>

theorem complete_job_failure_frame:
  assumes "complete_job now p_job_id False msg tbl = Inr tbl'"
    and "i < length tbl" and "job_id (tbl ! i) = p_job_id"
  shows "completed_at (tbl' ! i) = completed_at (tbl ! i) \<and>
         (status (tbl' ! i) = Failed \<longrightarrow> scheduled_at (tbl' ! i) = scheduled_at (tbl ! i)) \<and>
         (completed_at (tbl ! i) = None \<longrightarrow>
            (\<forall>now' d n tbl''. cleanup_old_jobs now' d tbl' = Inr (n, tbl'') \<longrightarrow>
               tbl' ! i \<in> set tbl''))"
proof -
  from complete_job_fail_nth[OF assms(1,2)] assms(3)
  have f: "fail_row now msg (tbl ! i) = Inr (tbl' ! i)" by simp
  have len: "length tbl' = length tbl" using assms(1) by (rule complete_job_fail_length)
  have a: "completed_at (tbl' ! i) = completed_at (tbl ! i)" using fail_row_Inr(5)[OF f] .
  have b: "scheduled_at (tbl' ! i) = scheduled_at (tbl ! i)" if "status (tbl' ! i) = Failed"
  proof -
    from that fail_row_Inr(2)[OF f] have "max_retries (tbl ! i) \<le> retry_count (tbl ! i)"
      by (auto split: if_splits)
    then show ?thesis by (rule fail_row_Inr(9)[OF f])
  qed
  have c: "tbl' ! i \<in> set tbl''"
    if "completed_at (tbl ! i) = None" "cleanup_old_jobs now' d tbl' = Inr (n, tbl'')"
    for now' d n tbl''
  proof -
    from that(1) a have "\<not> expired (now' - d * 86400000000) (tbl' ! i)"
      by (simp add: expired_def)
    moreover have "tbl' ! i \<in> set tbl'" using assms(2) len by simp
    ultimately show ?thesis using cleanup_old_jobs_Inr(1)[OF that(2)] by simp
  qed
  from a b c show ?thesis by blast
qed

text \<open>
  C10 as the specification has it fails for a job that was completed with success before:
  it keeps that \<open>completed_at\<close> through its retries, is \<open>failed\<close> with \<open>completed_at\<close> set
  after the last one, and is deleted by the cleanup.
\<close>

theorem complete_job_failure_frame_counterexample:
  "exec_calls calls_fail_stamped [] = [job_1_stamped] \<and>
   status job_1_stamped = Failed \<and> completed_at job_1_stamped = Some 20 \<and>
   cleanup_old_jobs 864000000000 7 [job_1_stamped] = Inr (1, [])"
  by (simp add: calls_fail_stamped_def job_1_stamped_def enqueue_job_def get_next_job_def
      claimable_def claim_row_def complete_job_def succeed_row_def fail_row_def int4pl_def
      backoff_def timestamptz_pl_def MIN_TIMESTAMP_def END_TIMESTAMP_def
      update_job_queue_timestamp_def cleanup_old_jobs_def days_before_def expired_def)

text \<open>
  A job that uses up its retries with no \<open>completed_at\<close> is \<open>failed\<close> with none, and a
  cleanup ten thousand days later keeps it.
\<close>

theorem complete_job_failure_frame_witness:
  "complete_job 300001000 2 False (Some ''boom'') [job_2_exhausted] =
     Inr [job_2_exhausted\<lparr>status := Failed, started_at := None,
            error_message := Some ''boom'', retry_count := 4, updated_at := 300001000\<rparr>] \<and>
   completed_at ([job_2_exhausted] ! 0) = None \<and>
   cleanup_old_jobs 864000000000000 7
     [job_2_exhausted\<lparr>status := Failed, started_at := None,
        error_message := Some ''boom'', retry_count := 4, updated_at := 300001000\<rparr>] =
     Inr (0, [job_2_exhausted\<lparr>status := Failed, started_at := None,
                error_message := Some ''boom'', retry_count := 4, updated_at := 300001000\<rparr>])"
proof -
  let ?f = "job_2_exhausted\<lparr>status := Failed, started_at := None,
            error_message := Some ''boom'', retry_count := 4, updated_at := 300001000\<rparr>"
  have run: "complete_job 300001000 2 False (Some ''boom'') [job_2_exhausted] = Inr [?f]"
    by (simp add: job_2_exhausted_def job_2_def complete_job_def fail_row_def int4pl_def
        update_job_queue_timestamp_def)
  have pre: "0 < length [job_2_exhausted]" "job_id ([job_2_exhausted] ! 0) = 2"
    by (simp_all add: job_2_exhausted_def job_2_def)
  have null: "completed_at ([job_2_exhausted] ! 0) = None"
    by (simp add: job_2_exhausted_def job_2_def)
  have clean: "cleanup_old_jobs 864000000000000 7 [?f] = Inr (0, [?f])"
    by (simp add: cleanup_old_jobs_def days_before_def timestamptz_pl_def MIN_TIMESTAMP_def
        END_TIMESTAMP_def expired_def job_2_exhausted_def job_2_def)
  from complete_job_failure_frame[OF run pre] null clean
  have "[?f] ! 0 \<in> set [?f]" by blast
  with clean run null show ?thesis by simp
qed

end
